theory Spec2Isabelle
  imports Main "HOL-Library.Word" "HOL-Library.AList" "HOL-Library.Signed_Division"
    "HOL-Library.Multiset"
begin

section \<open>Data model of GraphGridLayout.cpp\<close>

text \<open>
  Block identifiers are \<open>ut64\<close>, unsigned 64-bit integers. Coordinates, sizes and
  grid positions are C++ \<open>int\<close>. Rows, columns and counts are bounded by the number of
  blocks and edges and are modelled as integers; the sums of pixel sizes, which grow with
  the sizes and spacings of the input, are taken in 32 bits where \<open>calculateColumnOffsets\<close>
  accumulates them. Integer division \<open>/\<close> truncates towards zero and is written \<open>sdiv\<close>.
\<close>

type_synonym ut64 = "64 word"

text \<open>
  \<open>GraphEdge\<close> and \<open>GraphBlock\<close> are the caller's input/output structures. The polyline
  holds \<open>QPointF\<close> values; every coordinate stored by the layout is an \<open>int\<close>.
  The fields \<open>x\<close> and \<open>y\<close> of a block are named \<open>blk_x\<close> and \<open>blk_y\<close> here.
\<close>

record GraphEdge =
  target :: ut64
  polyline :: "(int \<times> int) list"

record GraphBlock =
  blk_x :: int
  blk_y :: int
  width :: int
  height :: int
  edges :: "GraphEdge list"

text \<open>
  Modelled from the spec: the declaration of \<open>GridBlock\<close> lives in GraphGridLayout.h,
  which is not among the sources. Its fields are the ones the source file reads and
  writes (the field \<open>id\<close> is named \<open>block_id\<close>); the two shape handles into the
  \<open>LinkedListPool\<close> are modelled by the lists of column deltas they denote.
\<close>

record GridBlock =
  block_id :: ut64
  tree_edge :: "ut64 list"
  dag_edge :: "ut64 list"
  has_parent :: bool
  inputCount :: int
  outputCount :: int
  row_count :: int
  col :: int
  row :: int
  lastRowLeft :: int
  lastRowRight :: int
  leftPosition :: int
  rightPosition :: int
  leftSideShape :: "int list"
  rightSideShape :: "int list"

text \<open>
  Modelled from the spec: \<open>Point\<close> and \<open>GridEdge\<close> (GraphGridLayout.h). A point is
  \<open>{row, col, kind, offset, spacingOverride}\<close>.
\<close>

record Point =
  pt_row :: int
  pt_col :: int
  pt_offset :: int
  pt_kind :: int
  pt_spacingOverride :: int

record GridEdge =
  dest :: ut64
  mainColumn :: int
  points :: "Point list"
  secondaryPriority :: int

record LayoutState =
  blocks :: "(ut64 \<times> GraphBlock) list"
  grid_blocks :: "(ut64 \<times> GridBlock) list"
  edge :: "(ut64 \<times> GridEdge list) list"
  rows :: nat
  columns :: nat
  columnWidth :: "int list"
  rowHeight :: "int list"
  edgeColumnWidth :: "int list"
  edgeRowHeight :: "int list"
  columnOffset :: "int list"
  rowOffset :: "int list"
  edgeColumnOffset :: "int list"
  edgeRowOffset :: "int list"

text \<open>
  A value-initialised block, as \<open>operator[]\<close> of \<open>std::unordered_map\<close> creates it for
  a key that is not present: numbers are zero, vectors are empty.
\<close>

definition default_GraphBlock :: GraphBlock where
  "default_GraphBlock = \<lparr>blk_x = 0, blk_y = 0, width = 0, height = 0, edges = []\<rparr>"

definition default_GridBlock :: GridBlock where
  "default_GridBlock =
     \<lparr>block_id = 0, tree_edge = [], dag_edge = [], has_parent = False,
      inputCount = 0, outputCount = 0, row_count = 0, col = 0, row = 0,
      lastRowLeft = 0, lastRowRight = 0, leftPosition = 0, rightPosition = 0,
      leftSideShape = [], rightSideShape = []\<rparr>"

subsection \<open>std::unordered_map\<close>

text \<open>
  An unordered map is an association list with distinct keys that records the keys in
  the order of their insertion. \<open>umap_at d m k\<close> is the value \<open>m[k]\<close> reads (the default
  \<open>d\<close> for a missing key), \<open>umap_touch d k m\<close> is the map after \<open>m[k]\<close> was evaluated
  (a missing key is inserted with the default), and \<open>umap_put k v m\<close> is the map after
  \<open>m[k] = v\<close>. The order in which a range-for enumerates the keys is left to the
  implementation of the hash table: every function that iterates over a map takes the
  enumeration \<open>hord\<close>, which maps the keys in insertion order to the keys in iteration
  order.
\<close>

definition umap_keys :: "('k \<times> 'v) list \<Rightarrow> 'k list" where
  "umap_keys m = map fst m"

definition umap_at :: "'v \<Rightarrow> ('k \<times> 'v) list \<Rightarrow> 'k \<Rightarrow> 'v" where
  "umap_at d m k = (case map_of m k of Some v \<Rightarrow> v | None \<Rightarrow> d)"

definition umap_touch :: "'v \<Rightarrow> 'k \<Rightarrow> ('k \<times> 'v) list \<Rightarrow> ('k \<times> 'v) list" where
  "umap_touch d k m = (case map_of m k of Some v \<Rightarrow> m | None \<Rightarrow> m @ [(k, d)])"

definition umap_put :: "'k \<Rightarrow> 'v \<Rightarrow> ('k \<times> 'v) list \<Rightarrow> ('k \<times> 'v) list" where
  "umap_put k v m = AList.update k v m"

section \<open>topoSort: cycle removal and topological order by one DFS\<close>

datatype State = NotVisited | InStack | Visited

text \<open>
  The variables of \<open>topoSort\<close> that the lambda \<open>dfsFragment\<close> captures by reference.
  The head of \<open>stack\<close> is the top of the \<open>std::stack\<close>.
\<close>

record DfsState =
  dfs_blocks :: "(ut64 \<times> GraphBlock) list"
  dfs_grid :: "(ut64 \<times> GridBlock) list"
  visited :: "ut64 \<Rightarrow> State"
  stack :: "(ut64 \<times> nat) list"
  blockOrder :: "ut64 list"

definition push_dag_edge :: "ut64 \<Rightarrow> ut64 \<Rightarrow> (ut64 \<times> GridBlock) list \<Rightarrow> (ut64 \<times> GridBlock) list" where
  "push_dag_edge v t g =
     (let b = umap_at default_GridBlock g v
      in umap_put v (b\<lparr>dag_edge := dag_edge b @ [t]\<rparr>) g)"

text \<open>One iteration of the loop \<open>while (!stack.empty())\<close>.\<close>

definition dfsStep :: "DfsState \<Rightarrow> DfsState" where
  "dfsStep s =
     (case stack s of
        [] \<Rightarrow> s
      | (v, edge_index) # rest \<Rightarrow>
          (let bs = umap_touch default_GraphBlock v (dfs_blocks s);
               block = umap_at default_GraphBlock bs v
           in if edge_index < length (edges block) then
                (let tgt = target (edges block ! edge_index);
                     stk = (v, Suc edge_index) # rest
                 in case visited s tgt of
                      NotVisited \<Rightarrow>
                        s\<lparr>dfs_blocks := bs,
                          dfs_grid := push_dag_edge v tgt (dfs_grid s),
                          visited := (visited s)(tgt := InStack),
                          stack := (tgt, 0) # stk\<rparr>
                    | Visited \<Rightarrow>
                        s\<lparr>dfs_blocks := bs,
                          dfs_grid := push_dag_edge v tgt (dfs_grid s),
                          stack := stk\<rparr>
                    | InStack \<Rightarrow> s\<lparr>dfs_blocks := bs, stack := stk\<rparr>)
              else
                s\<lparr>dfs_blocks := bs,
                  visited := (visited s)(v := Visited),
                  stack := rest,
                  blockOrder := blockOrder s @ [v]\<rparr>))"

text \<open>
  Termination of the loop: a push turns a not yet visited edge target into a visited
  one; every other iteration advances an edge index or pops the stack.
\<close>

definition all_targets :: "(ut64 \<times> GraphBlock) list \<Rightarrow> ut64 set" where
  "all_targets bs = (\<Union>kb \<in> set bs. target ` set (edges (snd kb)))"

definition dfs_unvisited :: "DfsState \<Rightarrow> nat" where
  "dfs_unvisited s = card {t \<in> all_targets (dfs_blocks s). visited s t = NotVisited}"

definition dfs_pending :: "DfsState \<Rightarrow> nat" where
  "dfs_pending s =
     sum_list (map (\<lambda>(v, i). Suc (length (edges (umap_at default_GraphBlock (dfs_blocks s) v)) - i))
       (stack s))"

text \<open>Facts for the termination proof.\<close>

lemma umap_at_touch [simp]: "umap_at d (umap_touch d k m) = umap_at d m"
proof
  fix x show "umap_at d (umap_touch d k m) x = umap_at d m x"
    by (cases "map_of m k"; cases "map_of m x") (auto simp: umap_at_def umap_touch_def map_add_def)
qed

lemma all_targets_touch [simp]:
  "all_targets (umap_touch default_GraphBlock k m) = all_targets m"
  by (auto simp: all_targets_def umap_touch_def default_GraphBlock_def split: option.splits)

lemma finite_all_targets [simp]: "finite (all_targets bs)"
  by (simp add: all_targets_def)

lemma edge_target_in_all_targets:
  "i < length (edges (umap_at default_GraphBlock bs v)) \<Longrightarrow>
   target (edges (umap_at default_GraphBlock bs v) ! i) \<in> all_targets bs"
  apply (auto simp: umap_at_def all_targets_def default_GraphBlock_def split: option.splits)
  apply (drule map_of_SomeD)
  apply (rule_tac x="(v, x2)" in bexI)
  apply auto
  done

lemma card_unvisited_le:
  assumes "finite T" "\<And>t. vis' t = NotVisited \<Longrightarrow> vis t = NotVisited"
  shows "card {t \<in> T. vis' t = NotVisited} \<le> card {t \<in> T. vis t = NotVisited}"
  using assms by (intro card_mono) auto

lemma card_unvisited_less:
  assumes "finite T" "\<And>t. vis' t = NotVisited \<Longrightarrow> vis t = NotVisited"
    and "u \<in> T" "vis u = NotVisited" "vis' u \<noteq> NotVisited"
  shows "card {t \<in> T. vis' t = NotVisited} < card {t \<in> T. vis t = NotVisited}"
  using assms by (intro psubset_card_mono) auto

lemma dfsStep_pop:
  assumes "stack s = (v, i) # rest"
    and "\<not> i < length (edges (umap_at default_GraphBlock (dfs_blocks s) v))"
  shows "dfsStep s = s\<lparr>dfs_blocks := umap_touch default_GraphBlock v (dfs_blocks s),
            visited := (visited s)(v := Visited), stack := rest,
            blockOrder := blockOrder s @ [v]\<rparr>"
  using assms by (simp add: dfsStep_def Let_def)

lemma dfsStep_push:
  assumes "stack s = (v, i) # rest"
    and "i < length (edges (umap_at default_GraphBlock (dfs_blocks s) v))"
    and "t = target (edges (umap_at default_GraphBlock (dfs_blocks s) v) ! i)"
    and "visited s t = NotVisited"
  shows "dfsStep s = s\<lparr>dfs_blocks := umap_touch default_GraphBlock v (dfs_blocks s),
            dfs_grid := push_dag_edge v t (dfs_grid s),
            visited := (visited s)(t := InStack), stack := (t, 0) # (v, Suc i) # rest\<rparr>"
  using assms by (simp add: dfsStep_def Let_def)

lemma dfsStep_cross:
  assumes "stack s = (v, i) # rest"
    and "i < length (edges (umap_at default_GraphBlock (dfs_blocks s) v))"
    and "t = target (edges (umap_at default_GraphBlock (dfs_blocks s) v) ! i)"
    and "visited s t = Visited"
  shows "dfsStep s = s\<lparr>dfs_blocks := umap_touch default_GraphBlock v (dfs_blocks s),
            dfs_grid := push_dag_edge v t (dfs_grid s), stack := (v, Suc i) # rest\<rparr>"
  using assms by (simp add: dfsStep_def Let_def)

lemma dfsStep_back:
  assumes "stack s = (v, i) # rest"
    and "i < length (edges (umap_at default_GraphBlock (dfs_blocks s) v))"
    and "t = target (edges (umap_at default_GraphBlock (dfs_blocks s) v) ! i)"
    and "visited s t = InStack"
  shows "dfsStep s = s\<lparr>dfs_blocks := umap_touch default_GraphBlock v (dfs_blocks s),
            stack := (v, Suc i) # rest\<rparr>"
  using assms by (simp add: dfsStep_def Let_def)

lemma dfsStep_decreases:
  assumes "stack s \<noteq> []"
  shows "(dfsStep s, s) \<in> measures [dfs_unvisited, dfs_pending]"
proof -
  obtain v i rest where st: "stack s = (v, i) # rest"
    using assms by (cases "stack s") auto
  let ?b = "umap_at default_GraphBlock (dfs_blocks s) v"
  show ?thesis
  proof (cases "i < length (edges ?b)")
    case False
    note eq = dfsStep_pop [OF st False]
    have "dfs_unvisited (dfsStep s) \<le> dfs_unvisited s"
      unfolding dfs_unvisited_def eq
      by (simp del: fun_upd_apply) (rule card_unvisited_le, auto split: if_splits)
    moreover have "dfs_pending (dfsStep s) < dfs_pending s"
      unfolding eq using st by (simp add: dfs_pending_def)
    ultimately show ?thesis by auto
  next
    case True
    let ?t = "target (edges ?b ! i)"
    have tin: "?t \<in> all_targets (dfs_blocks s)"
      using True by (rule edge_target_in_all_targets)
    show ?thesis
    proof (cases "visited s ?t")
      case NotVisited
      note eq = dfsStep_push [OF st True refl NotVisited]
      have "dfs_unvisited (dfsStep s) < dfs_unvisited s"
        unfolding dfs_unvisited_def eq using tin NotVisited
        by (simp del: fun_upd_apply) (rule card_unvisited_less [where u = ?t], auto split: if_splits)
      then show ?thesis by auto
    next
      case InStack
      note eq = dfsStep_back [OF st True refl InStack]
      show ?thesis unfolding eq using st True
        by (simp add: dfs_unvisited_def dfs_pending_def)
    next
      case Visited
      note eq = dfsStep_cross [OF st True refl Visited]
      show ?thesis unfolding eq using st True
        by (simp add: dfs_unvisited_def dfs_pending_def)
    qed
  qed
qed

function dfsLoop :: "DfsState \<Rightarrow> DfsState" where
  "dfsLoop s = (if stack s = [] then s else dfsLoop (dfsStep s))"
  by pat_completeness auto
termination
  apply (relation "measures [dfs_unvisited, dfs_pending]")
   apply (rule wf_measures)
  apply (erule dfsStep_decreases)
  done

declare dfsLoop.simps [simp del]

definition dfsFragment :: "ut64 \<Rightarrow> DfsState \<Rightarrow> DfsState" where
  "dfsFragment first s =
     dfsLoop (s\<lparr>visited := (visited s)(first := InStack), stack := (first, 0) # stack s\<rparr>)"

text \<open>
  \<open>topoSort\<close> starts the DFS at \<open>entry\<close> and then at every block that is still not
  visited, in the iteration order of \<open>blocks\<close>. The range-for enumerates the keys that
  are present when the loop starts; a key that a fragment inserts is visited by that
  fragment.
\<close>

definition dfsRemaining :: "ut64 \<Rightarrow> DfsState \<Rightarrow> DfsState" where
  "dfsRemaining k s = (if visited s k = NotVisited then dfsFragment k s else s)"

definition topoSort_dfs :: "(ut64 list \<Rightarrow> ut64 list) \<Rightarrow> LayoutState \<Rightarrow> ut64 \<Rightarrow> DfsState" where
  "topoSort_dfs hord state entry =
     (let s0 = \<lparr>dfs_blocks = blocks state, dfs_grid = grid_blocks state,
                visited = (\<lambda>k. NotVisited), stack = [], blockOrder = []\<rparr>;
          s1 = dfsFragment entry s0
      in fold dfsRemaining (hord (umap_keys (dfs_blocks s1))) s1)"

definition topoSort :: "(ut64 list \<Rightarrow> ut64 list) \<Rightarrow> LayoutState \<Rightarrow> ut64 \<Rightarrow> LayoutState \<times> ut64 list" where
  "topoSort hord state entry =
     (let s = topoSort_dfs hord state entry
      in (state\<lparr>blocks := dfs_blocks s, grid_blocks := dfs_grid s\<rparr>, blockOrder s))"

section \<open>assignRows and selectTree\<close>

definition raiseRow :: "int \<Rightarrow> ut64 \<Rightarrow> (ut64 \<times> GridBlock) list \<Rightarrow> (ut64 \<times> GridBlock) list" where
  "raiseRow nextLevel tgt g =
     (let targetBlock = umap_at default_GridBlock g tgt
      in umap_put tgt (targetBlock\<lparr>row := max (row targetBlock) nextLevel\<rparr>) g)"

definition assignRowsBlock :: "ut64 \<Rightarrow> (ut64 \<times> GridBlock) list \<Rightarrow> (ut64 \<times> GridBlock) list" where
  "assignRowsBlock v g =
     (let g1 = umap_touch default_GridBlock v g;
          block = umap_at default_GridBlock g1 v;
          nextLevel = row block + 1
      in fold (raiseRow nextLevel) (dag_edge block) g1)"

definition assignRows :: "LayoutState \<Rightarrow> ut64 list \<Rightarrow> LayoutState" where
  "assignRows state order =
     state\<lparr>grid_blocks := fold assignRowsBlock (rev order) (grid_blocks state)\<rparr>"

definition selectTreeEdge :: "ut64 \<Rightarrow> ut64 \<Rightarrow> (ut64 \<times> GridBlock) list \<Rightarrow> (ut64 \<times> GridBlock) list" where
  "selectTreeEdge v targetId g =
     (let g1 = umap_touch default_GridBlock targetId g;
          targetBlock = umap_at default_GridBlock g1 targetId;
          block = umap_at default_GridBlock g1 v
      in if \<not> has_parent targetBlock \<and> row targetBlock = row block + 1 then
           (let g2 = umap_put v (block\<lparr>tree_edge := tree_edge block @ [targetId]\<rparr>) g1;
                targetBlock2 = umap_at default_GridBlock g2 targetId
            in umap_put targetId (targetBlock2\<lparr>has_parent := True\<rparr>) g2)
         else g1)"

definition selectTreeBlock :: "ut64 \<Rightarrow> (ut64 \<times> GridBlock) list \<Rightarrow> (ut64 \<times> GridBlock) list" where
  "selectTreeBlock v g = fold (selectTreeEdge v) (dag_edge (umap_at default_GridBlock g v)) g"

definition selectTree :: "(ut64 list \<Rightarrow> ut64 list) \<Rightarrow> LayoutState \<Rightarrow> LayoutState" where
  "selectTree hord state =
     state\<lparr>grid_blocks :=
       fold selectTreeBlock (hord (umap_keys (grid_blocks state))) (grid_blocks state)\<rparr>"

section \<open>Errors\<close>

text \<open>
  \<open>CalculateLayout\<close> returns nothing and throws nothing; a run ends early only when an
  \<open>assert\<close> fails or an integer is divided by zero. Each of these is an error value.
\<close>

datatype error =
    AssertColNonNegative
  | AssertEmptyColumn
  | AssertPositionIndex
  | AssertSidesSize
  | AssertColumnSizes
  | DivisionByZero

fun foldE :: "('a \<Rightarrow> 's \<Rightarrow> error + 's) \<Rightarrow> 'a list \<Rightarrow> 's \<Rightarrow> error + 's" where
  "foldE f [] s = Inr s"
| "foldE f (a # as) s = (case f a s of Inl e \<Rightarrow> Inl e | Inr s' \<Rightarrow> foldE f as s')"

section \<open>The layout object\<close>

datatype LayoutType = Narrow | Medium | Wide

record LayoutConfig =
  blockVerticalSpacing :: int
  blockHorizontalSpacing :: int
  edgeVerticalSpacing :: int
  edgeHorizontalSpacing :: int

record GraphGridLayout =
  layoutType :: LayoutType
  tightSubtreePlacement :: bool
  parentBetweenDirectChild :: bool
  verticalBlockAlignmentMiddle :: bool
  layoutConfig :: LayoutConfig

text \<open>
  The constructor sets the two placement switches from the layout type. The spacing
  configuration and the vertical alignment switch are members declared in the headers;
  they are arguments here.
\<close>

definition new_GraphGridLayout :: "LayoutType \<Rightarrow> LayoutConfig \<Rightarrow> bool \<Rightarrow> GraphGridLayout" where
  "new_GraphGridLayout lt cfg middle =
     (case lt of
        Narrow \<Rightarrow> \<lparr>layoutType = lt, tightSubtreePlacement = True, parentBetweenDirectChild = False,
                   verticalBlockAlignmentMiddle = middle, layoutConfig = cfg\<rparr>
      | Medium \<Rightarrow> \<lparr>layoutType = lt, tightSubtreePlacement = False, parentBetweenDirectChild = False,
                   verticalBlockAlignmentMiddle = middle, layoutConfig = cfg\<rparr>
      | Wide \<Rightarrow> \<lparr>layoutType = lt, tightSubtreePlacement = False, parentBetweenDirectChild = True,
                 verticalBlockAlignmentMiddle = middle, layoutConfig = cfg\<rparr>)"

section \<open>findMergePoints\<close>

definition grid_modify :: "ut64 \<Rightarrow> (GridBlock \<Rightarrow> GridBlock) \<Rightarrow> (ut64 \<times> GridBlock) list \<Rightarrow> (ut64 \<times> GridBlock) list" where
  "grid_modify k f g = umap_put k (f (umap_at default_GridBlock g k)) g"

text \<open>
  The first loop over \<open>block.tree_edge\<close>: \<open>mergeBlock\<close> is kept as the key of the grid
  block the pointer refers to.
\<close>

definition mergeScan :: "ut64 \<Rightarrow> ut64 option \<times> int \<times> (ut64 \<times> GridBlock) list \<Rightarrow> ut64 option \<times> int \<times> (ut64 \<times> GridBlock) list" where
  "mergeScan e acc =
     (case acc of (mergeBlock, grandChildCount, g) \<Rightarrow>
        (let g1 = umap_touch default_GridBlock e g;
             targetBlock = umap_at default_GridBlock g1 e
         in if tree_edge targetBlock \<noteq> [] then
              (Some (hd (tree_edge targetBlock)),
               grandChildCount + int (length (tree_edge targetBlock)),
               umap_touch default_GridBlock (hd (tree_edge targetBlock)) g1)
            else (mergeBlock, grandChildCount, g1)))"

text \<open>The second loop, which stops at the first child that does not reach the merge block.\<close>

fun mergeCount :: "ut64 \<Rightarrow> ut64 list \<Rightarrow> int \<Rightarrow> int \<Rightarrow> (ut64 \<times> GridBlock) list \<Rightarrow> int \<times> int \<times> (ut64 \<times> GridBlock) list" where
  "mergeCount m [] blocksGoingToMerge blockWithTreeEdge g = (blocksGoingToMerge, blockWithTreeEdge, g)"
| "mergeCount m (e # es) blocksGoingToMerge blockWithTreeEdge g =
     (let g1 = umap_touch default_GridBlock e g;
          targetBlock = umap_at default_GridBlock g1 e;
          goesToMerge = (block_id (umap_at default_GridBlock g1 m) \<in> set (dag_edge targetBlock))
      in if goesToMerge then
           mergeCount m es (blocksGoingToMerge + 1)
             (if length (tree_edge targetBlock) = 1 then blocksGoingToMerge else blockWithTreeEdge) g1
         else (blocksGoingToMerge, blockWithTreeEdge, g1))"

definition findMergePointsBlock :: "ut64 \<Rightarrow> (ut64 \<times> GridBlock) list \<Rightarrow> (ut64 \<times> GridBlock) list" where
  "findMergePointsBlock k g =
     (let block = umap_at default_GridBlock g k
      in case fold mergeScan (tree_edge block) (None, 0, g) of
           (mergeBlock, grandChildCount, g1) \<Rightarrow>
             (case mergeBlock of
                None \<Rightarrow> g1
              | Some m \<Rightarrow>
                  if grandChildCount \<noteq> 1 then g1
                  else
                    (case mergeCount m (tree_edge block) 0 0 g1 of
                       (blocksGoingToMerge, blockWithTreeEdge, g2) \<Rightarrow>
                         if blocksGoingToMerge \<noteq> 0 then
                           grid_modify (tree_edge block ! nat blockWithTreeEdge)
                             (\<lambda>b. b\<lparr>col := blockWithTreeEdge * 2 - (blocksGoingToMerge - 1)\<rparr>) g2
                         else g2)))"

definition findMergePoints :: "(ut64 list \<Rightarrow> ut64 list) \<Rightarrow> LayoutState \<Rightarrow> LayoutState" where
  "findMergePoints hord state =
     state\<lparr>grid_blocks :=
       fold findMergePointsBlock (hord (umap_keys (grid_blocks state))) (grid_blocks state)\<rparr>"

section \<open>computeAllBlockPlacement\<close>

text \<open>
  Modelled from the spec: \<open>LinkedListPool\<close> (common/BinaryTrees.h, not among the sources)
  is an allocator for singly-linked lists with \<open>makeList\<close>, \<open>head\<close>, \<open>append\<close> and
  \<open>splitTail\<close>. A list is modelled by the sequence of its values. The source updates the
  cells in place; every list belongs to one subtree and is read again only through the
  handle that replaces it, so the sequences are passed on by value. A profile is never
  empty; \<open>add_head\<close> is \<open>*sides.head(l) += d\<close>.
\<close>

definition INT_MIN :: int where
  "INT_MIN = - 2147483648"

definition add_head :: "int \<Rightarrow> int list \<Rightarrow> int list" where
  "add_head d l = (case l of [] \<Rightarrow> [] | a # as \<Rightarrow> (a + d) # as)"

text \<open>
  The loop \<open>while (leftIt && rightIt)\<close>: it returns the five running values and what is
  left of the two lists.
\<close>

fun walkSides :: "int list \<Rightarrow> int list \<Rightarrow> int \<times> int \<times> int \<times> int \<times> int \<Rightarrow> (int \<times> int \<times> int \<times> int \<times> int) \<times> int list \<times> int list" where
  "walkSides (l # ls) (r # rs) (leftPos, rightPos, minPos, maxLeftWidth, minRightPos) =
     walkSides ls rs
       (leftPos + l, rightPos + r, max minPos ((leftPos + l) - (rightPos + r)),
        max maxLeftWidth (leftPos + l), min minRightPos (rightPos + r))"
| "walkSides ls rs acc = (acc, ls, rs)"

text \<open>
  One iteration of the loop that places the children side by side. The state is the grid
  and the two local handles \<open>leftSide\<close> and \<open>rightSide\<close>.
\<close>

definition placeChild :: "bool \<Rightarrow> ut64 \<Rightarrow> ut64 \<Rightarrow> (ut64 \<times> GridBlock) list \<times> int list \<times> int list \<Rightarrow> (ut64 \<times> GridBlock) list \<times> int list \<times> int list" where
  "placeChild tight blockId childId st =
     (case st of (g, leftSide, rightSide) \<Rightarrow>
      (let g0 = umap_touch default_GridBlock childId g;
           child = umap_at default_GridBlock g0 childId;
           block = umap_at default_GridBlock g0 blockId
       in case walkSides rightSide (leftSideShape child) (0, 0, INT_MIN, 0, col child) of
            ((leftPos, rightPos, minPos, maxLeftWidth, minRightPos), leftIt, rightIt) \<Rightarrow>
       (let rightTreeOffset =
              (if tight then minPos
               else if leftIt \<noteq> [] then maxLeftWidth - leftPosition child
               else rightPosition block - minRightPos);
            g1 = grid_modify childId (\<lambda>c. c\<lparr>col := col c + rightTreeOffset\<rparr>) g0;
            child1 = umap_at default_GridBlock g1 childId;
            block1 = umap_at default_GridBlock g1 blockId;
            (g2, leftSide2, rightSide2) =
              (if leftIt \<noteq> [] then
                 (g1, leftSide,
                  rightSideShape child1 @ add_head (- (rightTreeOffset + lastRowRight child1 - leftPos)) leftIt)
               else if rightIt \<noteq> [] then
                 (grid_modify blockId
                    (\<lambda>b. b\<lparr>lastRowRight := lastRowRight child1 + rightTreeOffset,
                           lastRowLeft := lastRowLeft child1 + rightTreeOffset\<rparr>) g1,
                  leftSide @ add_head (rightPos + rightTreeOffset - lastRowLeft block1) rightIt,
                  rightSideShape child1)
               else (g1, leftSide, rightSideShape child1));
            child2 = umap_at default_GridBlock g2 childId;
            g3 = grid_modify blockId
                   (\<lambda>b. b\<lparr>row_count := max (row_count b) (row_count child2),
                          leftPosition := min (leftPosition b) (leftPosition child2 + rightTreeOffset),
                          rightPosition := max (rightPosition b) (rightTreeOffset + rightPosition child2)\<rparr>) g2
        in (g3, leftSide2, add_head rightTreeOffset rightSide2))))"

text \<open>
  \<open>col /= block.tree_edge.size()\<close> divides an \<open>int\<close> by a \<open>size_t\<close>: the dividend is
  converted to unsigned 64 bits, and the quotient back to a 32-bit \<open>int\<close>.
\<close>

definition div_int_by_size :: "int \<Rightarrow> nat \<Rightarrow> int" where
  "div_int_by_size c n = sint (word_of_int ((c mod 2 ^ 64) div int n) :: 32 word)"

definition parentColumn :: "bool \<Rightarrow> GridBlock \<Rightarrow> (ut64 \<times> GridBlock) list \<Rightarrow> int" where
  "parentColumn between block g =
     (if between then
        div_int_by_size
          (fold (\<lambda>t c. c + col (umap_at default_GridBlock g t)) (tree_edge block) 0)
          (length (tree_edge block))
      else
        min (max ((rightPosition block + leftPosition block) sdiv 2 - 1)
                 (col (umap_at default_GridBlock g (hd (tree_edge block))) - 1))
            (col (umap_at default_GridBlock g (last (tree_edge block))) + 1))"

text \<open>The body of the loop \<open>for (auto blockId : blockOrder)\<close>.\<close>

definition placeBlock :: "GraphGridLayout \<Rightarrow> ut64 \<Rightarrow> (ut64 \<times> GridBlock) list \<Rightarrow> (ut64 \<times> GridBlock) list" where
  "placeBlock L blockId g =
     (let ga = umap_touch default_GridBlock blockId g;
          block = umap_at default_GridBlock ga blockId
      in if tree_edge block = [] then
           umap_put blockId
             (block\<lparr>row_count := 1, col := 0, lastRowRight := 2, lastRowLeft := 0,
                    leftPosition := 0, rightPosition := 2,
                    leftSideShape := [0], rightSideShape := [2]\<rparr>) ga
         else
           (let gb = umap_touch default_GridBlock (hd (tree_edge block)) ga;
                firstChild = umap_at default_GridBlock gb (hd (tree_edge block));
                gc = grid_modify blockId
                       (\<lambda>b. b\<lparr>row_count := row_count firstChild,
                              lastRowRight := lastRowRight firstChild,
                              lastRowLeft := lastRowLeft firstChild,
                              leftPosition := leftPosition firstChild,
                              rightPosition := rightPosition firstChild\<rparr>) gb
            in case fold (placeChild (tightSubtreePlacement L) blockId) (tl (tree_edge block))
                      (gc, leftSideShape firstChild, rightSideShape firstChild) of
                 (gd, leftSide, rightSide) \<Rightarrow>
            (let c = parentColumn (parentBetweenDirectChild L) (umap_at default_GridBlock gd blockId) gd;
                 ge = grid_modify blockId (\<lambda>b. b\<lparr>col := col b + c, row_count := row_count b + 1\<rparr>) gd;
                 gf = grid_modify blockId
                        (\<lambda>b. b\<lparr>leftPosition := min (leftPosition b) (col b),
                               rightPosition := max (rightPosition b) (col b + 2)\<rparr>) ge;
                 bcol = col (umap_at default_GridBlock gf blockId);
                 gg = grid_modify blockId
                        (\<lambda>b. b\<lparr>leftSideShape := bcol # add_head (- bcol) leftSide,
                               rightSideShape := (bcol + 2) # add_head (- (bcol + 2)) rightSide\<rparr>) gf
             in fold (\<lambda>t gr. let gt = umap_touch default_GridBlock t gr
                              in grid_modify t
                                   (\<lambda>b. b\<lparr>col := col b - col (umap_at default_GridBlock gt blockId)\<rparr>) gt)
                  (tree_edge block) gg)))"

text \<open>Root positions: the loop over \<open>grid_blocks\<close> with the counter \<open>nextEmptyColumn\<close>.\<close>

definition placeRoot :: "ut64 \<Rightarrow> (ut64 \<times> GridBlock) list \<times> int \<Rightarrow> (ut64 \<times> GridBlock) list \<times> int" where
  "placeRoot k st =
     (case st of (g, nextEmptyColumn) \<Rightarrow>
        (let block = umap_at default_GridBlock g k
         in if row block = 0 then
              (let off = - leftPosition block
               in (umap_put k (block\<lparr>col := col block + (nextEmptyColumn + off)\<rparr>) g,
                   rightPosition block + off))
            else (g, nextEmptyColumn)))"

text \<open>The last loop, top to bottom, with its assertion.\<close>

definition absolutePosition :: "ut64 \<Rightarrow> (ut64 \<times> GridBlock) list \<Rightarrow> error + (ut64 \<times> GridBlock) list" where
  "absolutePosition v g =
     (let g1 = umap_touch default_GridBlock v g;
          block = umap_at default_GridBlock g1 v
      in if \<not> (col block \<ge> 0) then Inl AssertColNonNegative
         else Inr (fold (\<lambda>childId gr.
                      let gt = umap_touch default_GridBlock childId gr
                      in grid_modify childId
                           (\<lambda>b. b\<lparr>col := col b + col (umap_at default_GridBlock gt v)\<rparr>) gt)
                    (tree_edge block) g1))"

definition computeAllBlockPlacement :: "GraphGridLayout \<Rightarrow> (ut64 list \<Rightarrow> ut64 list) \<Rightarrow> ut64 list \<Rightarrow> LayoutState \<Rightarrow> error + LayoutState" where
  "computeAllBlockPlacement L hord order layoutState =
     (let s1 = assignRows layoutState order;
          s2 = selectTree hord s1;
          s3 = findMergePoints hord s2;
          g4 = fold (placeBlock L) order (grid_blocks s3);
          g5 = fst (fold placeRoot (hord (umap_keys g4)) (g4, 0))
      in case foldE absolutePosition (rev order) g5 of
           Inl e \<Rightarrow> Inl e
         | Inr g6 \<Rightarrow> Inr (s3\<lparr>grid_blocks := g6\<rparr>))"

section \<open>Vectors and sorting\<close>

text \<open>
  A \<open>std::vector\<close> is a list; \<open>vget xs i\<close> is \<open>xs[i]\<close> and \<open>vset i v xs\<close> is the vector
  after \<open>xs[i] = v\<close>, for an \<open>int\<close> index. The source never checks an index (an index
  out of range is undefined behaviour there).
\<close>

definition vget :: "'a list \<Rightarrow> int \<Rightarrow> 'a" where
  "vget xs i = xs ! nat i"

definition vset :: "int \<Rightarrow> 'a \<Rightarrow> 'a list \<Rightarrow> 'a list" where
  "vset i v xs = xs[nat i := v]"

definition resize :: "nat \<Rightarrow> 'a \<Rightarrow> 'a list \<Rightarrow> 'a list" where
  "resize n d xs = take n xs @ replicate (n - length xs) d"

text \<open>
  \<open>std::sort\<close> with a comparison \<open>lt\<close>. The result is a permutation of the elements
  that is ordered by \<open>lt\<close>; the order of equivalent elements is left to the implementation
  of the library. Every such result is obtained by inserting the elements one by one, each
  before the first element that is not less than it, when they are taken in a suitable
  order (the result itself is one): \<open>ties\<close> is the order in which the implementation
  takes the elements of the vector.
\<close>

fun insert_sorted :: "('a \<Rightarrow> 'a \<Rightarrow> bool) \<Rightarrow> 'a \<Rightarrow> 'a list \<Rightarrow> 'a list" where
  "insert_sorted lt a [] = [a]"
| "insert_sorted lt a (b # bs) =
     (if lt b a then b # insert_sorted lt a bs else a # b # bs)"

definition std_sort :: "('a list \<Rightarrow> 'a list) \<Rightarrow> ('a \<Rightarrow> 'a \<Rightarrow> bool) \<Rightarrow> 'a list \<Rightarrow> 'a list" where
  "std_sort ties lt xs = foldr (insert_sorted lt) (ties xs) []"

section \<open>CalculateLayout: grid blocks, edges, counts and grid size\<close>

definition initGridBlocks :: "(ut64 list \<Rightarrow> ut64 list) \<Rightarrow> LayoutState \<Rightarrow> LayoutState" where
  "initGridBlocks hord state =
     state\<lparr>grid_blocks :=
       fold (\<lambda>k g. umap_put k (default_GridBlock\<lparr>block_id := k\<rparr>) g)
         (hord (umap_keys (blocks state))) (grid_blocks state)\<rparr>"

definition default_GridEdge :: GridEdge where
  "default_GridEdge = \<lparr>dest = 0, mainColumn = 0, points = [], secondaryPriority = 0\<rparr>"

definition initEdgesBlock :: "(ut64 \<times> GraphBlock) list \<Rightarrow> ut64 \<Rightarrow> (ut64 \<times> GridEdge list) list \<Rightarrow> (ut64 \<times> GridEdge list) list" where
  "initEdgesBlock bs k em =
     (let es = edges (umap_at default_GraphBlock bs k);
          resized = resize (length es) default_GridEdge (umap_at [] em k)
      in umap_put k (map (\<lambda>(ge, e). ge\<lparr>dest := target e\<rparr>) (zip resized es)) em)"

definition initEdges :: "(ut64 list \<Rightarrow> ut64 list) \<Rightarrow> LayoutState \<Rightarrow> LayoutState" where
  "initEdges hord state =
     state\<lparr>edge := fold (initEdgesBlock (blocks state)) (hord (umap_keys (blocks state))) (edge state)\<rparr>"

text \<open>
  The loop that fills \<open>outputCount\<close> and \<open>inputCount\<close>: \<open>startBlock.outputCount++\<close> stands
  before the inner loop over the edges, \<open>targetBlock.inputCount++\<close> inside it.
\<close>

definition countEdgesOf :: "ut64 \<Rightarrow> GridEdge list \<Rightarrow> (ut64 \<times> GridBlock) list \<Rightarrow> (ut64 \<times> GridBlock) list" where
  "countEdgesOf k es g =
     fold (\<lambda>e gr. grid_modify (dest e) (\<lambda>b. b\<lparr>inputCount := inputCount b + 1\<rparr>) gr) es
       (grid_modify k (\<lambda>b. b\<lparr>outputCount := outputCount b + 1\<rparr>) g)"

definition countEdges :: "(ut64 list \<Rightarrow> ut64 list) \<Rightarrow> LayoutState \<Rightarrow> LayoutState" where
  "countEdges hord state =
     state\<lparr>grid_blocks :=
       fold (\<lambda>k g. countEdgesOf k (umap_at [] (edge state) k) g)
         (hord (umap_keys (edge state))) (grid_blocks state)\<rparr>"

definition gridSize :: "(ut64 list \<Rightarrow> ut64 list) \<Rightarrow> LayoutState \<Rightarrow> LayoutState" where
  "gridSize hord state =
     (let g = grid_blocks state;
          ks = hord (umap_keys g)
      in state\<lparr>rows := fold (\<lambda>k r. max r (nat (row (umap_at default_GridBlock g k)) + 1)) ks 1,
               columns := fold (\<lambda>k c. max c (nat (col (umap_at default_GridBlock g k)) + 2)) ks 1\<rparr>)"

definition initSizesBlock :: "ut64 \<Rightarrow> LayoutState \<Rightarrow> LayoutState" where
  "initSizesBlock k state =
     (let st1 = state\<lparr>blocks := umap_touch default_GraphBlock k (blocks state)\<rparr>;
          inputBlock = umap_at default_GraphBlock (blocks st1) k;
          node = umap_at default_GridBlock (grid_blocks st1) k;
          rh = vset (row node) (max (height inputBlock) (vget (rowHeight st1) (row node))) (rowHeight st1);
          cw1 = vset (col node) (max (width inputBlock sdiv 2) (vget (columnWidth st1) (col node)))
                  (columnWidth st1);
          cw2 = vset (col node + 1) (max (width inputBlock sdiv 2) (vget cw1 (col node + 1))) cw1
      in st1\<lparr>rowHeight := rh, columnWidth := cw2\<rparr>)"

definition initSizes :: "(ut64 list \<Rightarrow> ut64 list) \<Rightarrow> LayoutState \<Rightarrow> LayoutState" where
  "initSizes hord state =
     fold initSizesBlock (hord (umap_keys (grid_blocks state)))
       (state\<lparr>rowHeight := replicate (rows state) 0, columnWidth := replicate (columns state) 0\<rparr>)"

section \<open>calculateEdgeMainColumn\<close>

datatype EventType = Edge | Block

record Event =
  ev_blockId :: ut64
  ev_edgeId :: nat
  ev_row :: int
  ev_type :: EventType

definition event_type_int :: "EventType \<Rightarrow> int" where
  "event_type_int t = (case t of Edge \<Rightarrow> 0 | Block \<Rightarrow> 1)"

definition event_less :: "Event \<Rightarrow> Event \<Rightarrow> bool" where
  "event_less a b =
     (if ev_row a \<noteq> ev_row b then ev_row a < ev_row b
      else event_type_int (ev_type a) < event_type_int (ev_type b))"

definition edgeEvent :: "ut64 \<Rightarrow> GraphBlock \<Rightarrow> int \<Rightarrow> nat \<Rightarrow> LayoutState \<times> Event list \<Rightarrow> LayoutState \<times> Event list" where
  "edgeEvent k inputBlock startRow i acc =
     (case acc of (state, events) \<Rightarrow>
        (let targetId = target (edges inputBlock ! i);
             st1 = state\<lparr>grid_blocks := umap_touch default_GridBlock targetId (grid_blocks state)\<rparr>;
             endRow = row (umap_at default_GridBlock (grid_blocks st1) targetId)
         in (st1, events @ [\<lparr>ev_blockId = k, ev_edgeId = i, ev_row = max startRow endRow, ev_type = Edge\<rparr>])))"

definition blockEvents :: "ut64 \<Rightarrow> LayoutState \<times> Event list \<Rightarrow> LayoutState \<times> Event list" where
  "blockEvents k acc =
     (case acc of (state, events) \<Rightarrow>
        (let node = umap_at default_GridBlock (grid_blocks state) k;
             st1 = state\<lparr>blocks := umap_touch default_GraphBlock k (blocks state),
                         edge := umap_touch [] k (edge state)\<rparr>;
             inputBlock = umap_at default_GraphBlock (blocks st1) k;
             startRow = row node + 1
         in fold (edgeEvent k inputBlock startRow) [0..<length (edges inputBlock)]
              (st1, events @ [\<lparr>ev_blockId = k, ev_edgeId = 0, ev_row = row node, ev_type = Block\<rparr>])))"

text \<open>
  Modelled from the spec: \<open>PointSetMinTree\<close> (common/BinaryTrees.h, not among the sources)
  holds one value per column and supports \<open>set(c, row)\<close>, \<open>valueAtPoint(c)\<close>, the
  rightmost index \<open>\<le> c\<close> with a value \<open>< row\<close> and the leftmost index \<open>\<ge> c\<close> with a
  value \<open>< row\<close>; both searches return \<open>-1\<close> when there is no such index. It is modelled
  by the list of its values.
\<close>

definition valueAtPoint :: "int list \<Rightarrow> int \<Rightarrow> int" where
  "valueAtPoint t c = vget t c"

definition rightMostLessThan :: "int list \<Rightarrow> int \<Rightarrow> int \<Rightarrow> int" where
  "rightMostLessThan t c v =
     (case filter (\<lambda>i. t ! i < v) (rev [0..<min (Suc (nat c)) (length t)]) of
        [] \<Rightarrow> - 1
      | i # _ \<Rightarrow> int i)"

definition leftMostLessThan :: "int list \<Rightarrow> int \<Rightarrow> int \<Rightarrow> int" where
  "leftMostLessThan t c v =
     (case filter (\<lambda>i. t ! i < v) [nat c..<length t] of
        [] \<Rightarrow> - 1
      | i # _ \<Rightarrow> int i)"

definition setMainColumn :: "ut64 \<Rightarrow> nat \<Rightarrow> int \<Rightarrow> LayoutState \<Rightarrow> LayoutState" where
  "setMainColumn k i c state =
     (let es = umap_at [] (edge state) k
      in state\<lparr>edge := umap_put k (es[i := (es ! i)\<lparr>mainColumn := c\<rparr>]) (edge state)\<rparr>)"

definition processEvent :: "Event \<Rightarrow> LayoutState \<times> int list \<Rightarrow> error + LayoutState \<times> int list" where
  "processEvent event acc =
     (case acc of (state, blockedColumns) \<Rightarrow>
      (let st1 = state\<lparr>grid_blocks := umap_touch default_GridBlock (ev_blockId event) (grid_blocks state)\<rparr>;
           block = umap_at default_GridBlock (grid_blocks st1) (ev_blockId event)
       in if ev_type event = Block then
            Inr (st1, vset (col block + 1) (ev_row event) blockedColumns)
          else
            (let column = col block + 1;
                 st2 = st1\<lparr>edge := umap_touch [] (ev_blockId event) (edge st1)\<rparr>;
                 e = umap_at [] (edge st2) (ev_blockId event) ! ev_edgeId event;
                 st3 = st2\<lparr>grid_blocks := umap_touch default_GridBlock (dest e) (grid_blocks st2)\<rparr>;
                 targetBlock = umap_at default_GridBlock (grid_blocks st3) (dest e);
                 topRow = min (row block + 1) (row targetBlock);
                 targetColumn = col targetBlock + 1
             in if valueAtPoint blockedColumns column < topRow then
                  Inr (setMainColumn (ev_blockId event) (ev_edgeId event) column st3, blockedColumns)
                else if valueAtPoint blockedColumns targetColumn < topRow then
                  Inr (setMainColumn (ev_blockId event) (ev_edgeId event) targetColumn st3, blockedColumns)
                else
                  (let nearestLeft = rightMostLessThan blockedColumns column topRow;
                       nearestRight = leftMostLessThan blockedColumns column topRow
                   in if \<not> (nearestLeft \<noteq> - 1 \<and> nearestRight \<noteq> - 1) then Inl AssertEmptyColumn
                      else
                        (let distanceLeft = column - nearestLeft + \<bar>targetColumn - nearestLeft\<bar>;
                             distanceRight = nearestRight - column + \<bar>targetColumn - nearestRight\<bar>;
                             c = (if row targetBlock < row block \<and> targetColumn < column
                                     \<and> valueAtPoint blockedColumns (column + 1) < topRow
                                     \<and> column - targetColumn \<le> distanceLeft + 2
                                  then column + 1
                                  else if row targetBlock < row block \<and> targetColumn > column
                                     \<and> valueAtPoint blockedColumns (column - 1) < topRow
                                     \<and> targetColumn - column \<le> distanceRight + 2
                                  then column - 1
                                  else if distanceLeft \<noteq> distanceRight then
                                    (if distanceLeft < distanceRight then nearestLeft else nearestRight)
                                  else if ev_edgeId event
                                            < length (umap_at [] (edge st3) (ev_blockId event)) div 2
                                  then nearestLeft else nearestRight)
                         in Inr (setMainColumn (ev_blockId event) (ev_edgeId event) c st3, blockedColumns))))))"

definition calculateEdgeMainColumn :: "(ut64 list \<Rightarrow> ut64 list) \<Rightarrow> (Event list \<Rightarrow> Event list) \<Rightarrow> LayoutState \<Rightarrow> error + LayoutState" where
  "calculateEdgeMainColumn hord event_ties state =
     (case fold blockEvents (hord (umap_keys (grid_blocks state))) (state, []) of
        (st1, events) \<Rightarrow>
          (case foldE processEvent (std_sort event_ties event_less events)
                  (st1, replicate (columns st1 + 1) (- 1)) of
             Inl e \<Rightarrow> Inl e
           | Inr (st2, blockedColumns) \<Rightarrow> Inr st2))"

section \<open>roughRouting\<close>

text \<open>
  Modelled from the spec: \<open>GridEdge::addPoint\<close> (GraphGridLayout.h) appends one point
  with the given row, column and kind; offset and spacing override start at zero.
\<close>

definition addPoint :: "int \<Rightarrow> int \<Rightarrow> int \<Rightarrow> GridEdge \<Rightarrow> GridEdge" where
  "addPoint r c k e =
     e\<lparr>points := points e @ [\<lparr>pt_row = r, pt_col = c, pt_offset = 0, pt_kind = k, pt_spacingOverride = 0\<rparr>]\<rparr>"

definition getSpacingOverride :: "GraphGridLayout \<Rightarrow> int \<Rightarrow> int \<Rightarrow> error + int" where
  "getSpacingOverride L blockWidth edgeCount =
     (if edgeCount = 0 then Inl DivisionByZero
      else (let maxSpacing = blockWidth sdiv edgeCount
            in if maxSpacing < edgeHorizontalSpacing (layoutConfig L) then Inr (max maxSpacing 1)
               else Inr 0))"

definition routePoints :: "GridBlock \<Rightarrow> GridBlock \<Rightarrow> GridEdge \<Rightarrow> GridEdge" where
  "routePoints start tgt e0 =
     (let e1 = addPoint (row start + 1) (col start + 1) 0 e0;
          e2 = (if mainColumn e1 \<noteq> col start + 1 then
                  addPoint (row start + 1) (mainColumn e1) (if row tgt \<le> row start then - 2 else 0)
                    (addPoint (row start + 1) (col start + 1)
                       (if mainColumn e1 < col start + 1 then - 1 else 1) e1)
                else e1);
          mainColumnKind =
            (if mainColumn e2 < col start + 1 \<and> mainColumn e2 < col tgt + 1 then 2
             else if mainColumn e2 > col start + 1 \<and> mainColumn e2 > col tgt + 1 then - 2
             else if mainColumn e2 = col start + 1 \<and> mainColumn e2 \<noteq> col tgt + 1 then
               (if mainColumn e2 < col tgt + 1 then 1 else - 1)
             else if mainColumn e2 = col tgt + 1 \<and> mainColumn e2 \<noteq> col start + 1 then
               (if mainColumn e2 < col start + 1 then 1 else - 1)
             else 0);
          e3 = addPoint (row tgt) (mainColumn e2) mainColumnKind e2
      in if col tgt + 1 \<noteq> mainColumn e3 then
           addPoint (row tgt) (col tgt + 1) (if col tgt + 1 < mainColumn e3 then 1 else - 1)
             (addPoint (row tgt) (col tgt + 1) (if row tgt \<le> row start then 2 else 0) e3)
         else e3)"

fun pathLength :: "Point list \<Rightarrow> int" where
  "pathLength (p # q # ps) =
     \<bar>pt_row q - pt_row p\<bar> + \<bar>pt_col q - pt_col p\<bar> + pathLength (q # ps)"
| "pathLength ps = 0"

definition setFrontSpacing :: "int \<Rightarrow> Point list \<Rightarrow> Point list" where
  "setFrontSpacing v ps = (case ps of [] \<Rightarrow> [] | p # qs \<Rightarrow> p\<lparr>pt_spacingOverride := v\<rparr> # qs)"

definition setBackSpacing :: "int \<Rightarrow> Point list \<Rightarrow> Point list" where
  "setBackSpacing v ps = rev (setFrontSpacing v (rev ps))"

definition routeEdge :: "GraphGridLayout \<Rightarrow> ut64 \<Rightarrow> nat \<Rightarrow> LayoutState \<Rightarrow> error + LayoutState" where
  "routeEdge L k i state =
     (let e0 = umap_at [] (edge state) k ! i;
          start = umap_at default_GridBlock (grid_blocks state) k;
          st1 = state\<lparr>grid_blocks := umap_touch default_GridBlock (dest e0) (grid_blocks state)\<rparr>;
          tgt = umap_at default_GridBlock (grid_blocks st1) (dest e0);
          e4 = routePoints start tgt e0;
          st2 = st1\<lparr>blocks := umap_touch default_GraphBlock (block_id start) (blocks st1)\<rparr>
      in case getSpacingOverride L (width (umap_at default_GraphBlock (blocks st2) (block_id start)))
                (outputCount start) of
           Inl err \<Rightarrow> Inl err
         | Inr startSpacingOverride \<Rightarrow>
      (let st3 = st2\<lparr>blocks := umap_touch default_GraphBlock (block_id tgt) (blocks st2)\<rparr>
       in case getSpacingOverride L (width (umap_at default_GraphBlock (blocks st3) (block_id tgt)))
                 (inputCount tgt) of
            Inl err \<Rightarrow> Inl err
          | Inr targetSpacingOverride \<Rightarrow>
       (let ps = setBackSpacing targetSpacingOverride (setFrontSpacing startSpacingOverride (points e4));
            e5 = e4\<lparr>points := ps,
                    secondaryPriority := 2 * pathLength ps + (if row tgt \<ge> row start then 1 else 0)\<rparr>;
            es = umap_at [] (edge st3) k
        in Inr (st3\<lparr>edge := umap_put k (es[i := e5]) (edge st3)\<rparr>))))"

definition routeBlockEdges :: "GraphGridLayout \<Rightarrow> ut64 \<Rightarrow> LayoutState \<Rightarrow> error + LayoutState" where
  "routeBlockEdges L k state =
     (let st1 = state\<lparr>edge := umap_touch [] k (edge state)\<rparr>
      in foldE (routeEdge L k) [0..<length (umap_at [] (edge st1) k)] st1)"

definition roughRouting :: "GraphGridLayout \<Rightarrow> (ut64 list \<Rightarrow> ut64 list) \<Rightarrow> LayoutState \<Rightarrow> error + LayoutState" where
  "roughRouting L hord state =
     foldE (routeBlockEdges L) (hord (umap_keys (grid_blocks state))) state"

section \<open>Segment offsets\<close>

text \<open>
  \<open>EdgeSegment\<close> and \<open>NodeSide\<close> of the anonymous namespace. The fields \<open>kind\<close> and
  \<open>spacingOverride\<close> of a segment are \<open>int16_t\<close>: \<open>to_int16\<close> is the conversion of an
  \<open>int\<close> to them.
\<close>

record EdgeSegment =
  seg_y0 :: int
  seg_y1 :: int
  seg_x :: int
  seg_edgeIndex :: int
  seg_secondaryPriority :: int
  seg_kind :: int
  seg_spacingOverride :: int

record NodeSide =
  ns_x :: int
  ns_y0 :: int
  ns_y1 :: int
  ns_size :: int

definition to_int16 :: "int \<Rightarrow> int" where
  "to_int16 v = sint (word_of_int v :: 16 word)"

text \<open>
  Modelled from the spec: \<open>RangeAssignMaxTree\<close> (common/BinaryTrees.h, not among the
  sources) is a range-assign/range-max tree over \<open>[0,H)\<close>: \<open>setRange(l, r, v)\<close> assigns
  \<open>v\<close> on \<open>[l,r)\<close> and \<open>rangeMaximum(l, r)\<close> is the maximum over \<open>[l,r)\<close>. It is
  modelled by the list of its \<open>H\<close> values.
\<close>

definition setRange :: "int \<Rightarrow> int \<Rightarrow> int \<Rightarrow> int list \<Rightarrow> int list" where
  "setRange l r v t = map (\<lambda>(i, a). if l \<le> int i \<and> int i < r then v else a) (enumerate 0 t)"

definition rangeMaximum :: "int \<Rightarrow> int \<Rightarrow> int list \<Rightarrow> int" where
  "rangeMaximum l r t =
     fold max (map snd (filter (\<lambda>(i, a). l \<le> int i \<and> int i < r) (enumerate 0 t))) INT_MIN"

definition segment_less :: "EdgeSegment \<Rightarrow> EdgeSegment \<Rightarrow> bool" where
  "segment_less a b =
     (if seg_x a \<noteq> seg_x b then seg_x a < seg_x b
      else if seg_kind a \<noteq> seg_kind b then seg_kind a < seg_kind b
      else (let aSize = seg_y1 a - seg_y0 a; bSize = seg_y1 b - seg_y0 b
            in if aSize \<noteq> bSize then
                 (if seg_kind a \<noteq> 1 then aSize < bSize else aSize > bSize)
               else if seg_kind a \<noteq> 1 then seg_secondaryPriority a < seg_secondaryPriority b
               else seg_secondaryPriority a > seg_secondaryPriority b))"

definition node_less :: "NodeSide \<Rightarrow> NodeSide \<Rightarrow> bool" where
  "node_less a b = (ns_x a < ns_x b)"

definition swapEnds :: "EdgeSegment \<Rightarrow> EdgeSegment" where
  "swapEnds s = (if seg_y0 s > seg_y1 s then s\<lparr>seg_y0 := seg_y1 s, seg_y1 := seg_y0 s\<rparr> else s)"

text \<open>The variables of the main loop of \<open>calculateSegmentOffsets\<close>.\<close>

record OffsetState =
  os_segments :: "EdgeSegment list"
  os_rightSide :: "NodeSide list"
  os_leftSide :: "NodeSide list"
  os_maxSegment :: "int list"
  os_edgeOffsets :: "int list"
  os_edgeColumnWidth :: "int list"

definition applySides :: "int \<Rightarrow> NodeSide list \<Rightarrow> int list \<Rightarrow> int list" where
  "applySides w sides t =
     fold (\<lambda>n tr. setRange (ns_y0 n) (ns_y1 n + 1) (ns_size n - w) tr) sides t"

definition placeSegment :: "bool \<Rightarrow> int \<Rightarrow> EdgeSegment \<Rightarrow> int list \<times> int list \<Rightarrow> int list \<times> int list" where
  "placeSegment leftPass segmentSpacing s acc =
     (case acc of (t, edgeOffsets) \<Rightarrow>
        (let y0 = rangeMaximum (seg_y0 s) (seg_y1 s + 1) t;
             y1 = (if leftPass \<and> seg_kind s \<noteq> - 2 then max y0 0 else y0);
             y2 = y1 + (if seg_spacingOverride s \<noteq> 0 then seg_spacingOverride s else segmentSpacing)
         in (setRange (seg_y0 s) (seg_y1 s + 1) y2 t, vset (seg_edgeIndex s) y2 edgeOffsets)))"

text \<open>
  One iteration of \<open>while (nextSegmentIt != segments.end())\<close>: one edge column \<open>c\<close>.
  \<open>columnPass\<close> is the work on the tree, the offsets and the width of the column;
  \<open>segmentColumn\<close> also advances the three iterators.
\<close>

definition columnPass :: "int list \<Rightarrow> nat \<Rightarrow> int \<Rightarrow> OffsetState \<Rightarrow> int list \<times> int list \<times> int list" where
  "columnPass columnWidths H segmentSpacing st =
     (let c = seg_x (hd (os_segments st));
          leftColumWidth = (if c > 0 then vget columnWidths (c - 1) else 0);
          t1 = setRange 0 (int H) (- leftColumWidth) (os_maxSegment st);
          rs1 = dropWhile (\<lambda>n. ns_x n + 1 < c) (os_rightSide st);
          t2 = applySides leftColumWidth (takeWhile (\<lambda>n. ns_x n + 1 = c) rs1) t1;
          firstPart = takeWhile (\<lambda>s. seg_x s = c \<and> seg_kind s \<le> 1) (os_segments st);
          segs1 = dropWhile (\<lambda>s. seg_x s = c \<and> seg_kind s \<le> 1) (os_segments st);
          (t3, offs1) = fold (placeSegment True segmentSpacing) firstPart (t2, os_edgeOffsets st);
          middleWidth = max (rangeMaximum 0 (int H) t3) 0;
          rightColumnWidth = (if c < int (length columnWidths) then vget columnWidths c else 0);
          t4 = setRange 0 (int H) (- rightColumnWidth) t3;
          ls1 = dropWhile (\<lambda>n. ns_x n < c) (os_leftSide st);
          t5 = applySides rightColumnWidth (takeWhile (\<lambda>n. ns_x n = c) ls1) t4;
          secondPart = takeWhile (\<lambda>s. seg_x s = c) segs1;
          (t6, offs2) = fold (placeSegment False segmentSpacing) secondPart (t5, offs1);
          rightSideMiddle = max (max (rangeMaximum 0 (int H) t6) 0)
                              (vget (os_edgeColumnWidth st) c - middleWidth - segmentSpacing);
          offs3 = fold (\<lambda>s offs. vset (seg_edgeIndex s)
                          (middleWidth + (rightSideMiddle - vget offs (seg_edgeIndex s)) + segmentSpacing) offs)
                    secondPart offs2
      in (t6, offs3, vset c (middleWidth + segmentSpacing + rightSideMiddle) (os_edgeColumnWidth st)))"

definition segmentColumn :: "int list \<Rightarrow> nat \<Rightarrow> int \<Rightarrow> OffsetState \<Rightarrow> OffsetState" where
  "segmentColumn columnWidths H segmentSpacing st =
     (case columnPass columnWidths H segmentSpacing st of
        (t, offs, widths) \<Rightarrow>
          \<lparr>os_segments =
             dropWhile (\<lambda>s. seg_x s = seg_x (hd (os_segments st)))
               (dropWhile (\<lambda>s. seg_x s = seg_x (hd (os_segments st)) \<and> seg_kind s \<le> 1)
                  (os_segments st)),
           os_rightSide =
             dropWhile (\<lambda>n. ns_x n + 1 = seg_x (hd (os_segments st)))
               (dropWhile (\<lambda>n. ns_x n + 1 < seg_x (hd (os_segments st))) (os_rightSide st)),
           os_leftSide =
             dropWhile (\<lambda>n. ns_x n = seg_x (hd (os_segments st)))
               (dropWhile (\<lambda>n. ns_x n < seg_x (hd (os_segments st))) (os_leftSide st)),
           os_maxSegment = t, os_edgeOffsets = offs, os_edgeColumnWidth = widths\<rparr>)"

lemma length_dropWhile_twice:
  "P a \<Longrightarrow> length (dropWhile P (dropWhile Q (a # as))) < Suc (length as)"
proof -
  assume a: "P a"
  have le: "\<And>R xs. length (dropWhile R xs) \<le> length (xs :: 'a list)"
    by (rule length_dropWhile_le)
  show ?thesis
  proof (cases "Q a")
    case True
    have "length (dropWhile P (dropWhile Q as)) \<le> length (dropWhile Q as)" by (rule le)
    also have "\<dots> \<le> length as" by (rule le)
    finally show ?thesis using True by simp
  next
    case False
    have "length (dropWhile P as) \<le> length as" by (rule le)
    then show ?thesis using False a by simp
  qed
qed

lemma segmentColumn_decreases:
  assumes "os_segments st \<noteq> []"
  shows "length (os_segments (segmentColumn cw H sp st)) < length (os_segments st)"
proof -
  obtain a as where eq: "os_segments st = a # as"
    using assms by (cases "os_segments st") auto
  have "length (dropWhile (\<lambda>s. seg_x s = seg_x a)
          (dropWhile (\<lambda>s. seg_x s = seg_x a \<and> seg_kind s \<le> 1) (a # as))) < Suc (length as)"
    by (rule length_dropWhile_twice) simp
  then show ?thesis
    unfolding segmentColumn_def eq by (auto split: prod.splits if_splits)
qed

function offsetsLoop :: "int list \<Rightarrow> nat \<Rightarrow> int \<Rightarrow> OffsetState \<Rightarrow> OffsetState" where
  "offsetsLoop cw H sp st =
     (if os_segments st = [] then st else offsetsLoop cw H sp (segmentColumn cw H sp st))"
  by pat_completeness auto
termination
  apply (relation "measure (\<lambda>(cw, H, sp, st). length (os_segments st))")
   apply simp
  apply (simp add: segmentColumn_decreases)
  done

declare offsetsLoop.simps [simp del]

text \<open>
  \<open>calculateSegmentOffsets\<close> returns the sorted segments, the offsets and the widths of
  the edge columns (its in-out arguments). Its first two arguments are the orders in which
  \<open>std::sort\<close> takes the segments and the node sides.
\<close>

definition calculateSegmentOffsets :: "(EdgeSegment list \<Rightarrow> EdgeSegment list) \<Rightarrow> (NodeSide list \<Rightarrow> NodeSide list) \<Rightarrow> EdgeSegment list \<Rightarrow> int list \<Rightarrow> int list \<Rightarrow> NodeSide list \<Rightarrow> NodeSide list \<Rightarrow> int list \<Rightarrow> nat \<Rightarrow> int \<Rightarrow> EdgeSegment list \<times> int list \<times> int list" where
  "calculateSegmentOffsets segment_ties side_ties segments edgeOffsets edgeColumnWidths
       nodeRightSide nodeLeftSide columnWidths H segmentSpacing =
     (let sorted = std_sort segment_ties segment_less (map swapEnds segments);
          st = offsetsLoop columnWidths H segmentSpacing
                 \<lparr>os_segments = sorted,
                  os_rightSide = std_sort side_ties node_less nodeRightSide,
                  os_leftSide = std_sort side_ties node_less nodeLeftSide,
                  os_maxSegment = replicate H INT_MIN,
                  os_edgeOffsets = edgeOffsets,
                  os_edgeColumnWidth = edgeColumnWidths\<rparr>
      in (sorted, os_edgeOffsets st, os_edgeColumnWidth st))"

subsection \<open>centerEdges\<close>

record CenterEvent =
  ce_x :: int
  ce_y :: int
  ce_index :: int
  ce_start :: bool

definition center_less :: "CenterEvent \<Rightarrow> CenterEvent \<Rightarrow> bool" where
  "center_less a b =
     (if ce_x a \<noteq> ce_x b then ce_x a < ce_x b
      else if ce_y a \<noteq> ce_y b then ce_y a < ce_y b
      else (if ce_start a then (1::int) else 0) > (if ce_start b then 1 else 0))"

definition centerEvents :: "int list \<Rightarrow> int list \<Rightarrow> EdgeSegment list \<Rightarrow> CenterEvent list" where
  "centerEvents segmentOffsets edgeColumnWidths segments =
     concat (map (\<lambda>s. let off = vget segmentOffsets (seg_edgeIndex s)
                      in if off \<ge> 0 \<and> off \<le> vget edgeColumnWidths (seg_x s) then
                           [\<lparr>ce_x = seg_x s, ce_y = seg_y0 s, ce_index = seg_edgeIndex s, ce_start = True\<rparr>,
                            \<lparr>ce_x = seg_x s, ce_y = seg_y1 s, ce_index = seg_edgeIndex s, ce_start = False\<rparr>]
                         else []) segments)"

text \<open>
  The inner loop \<open>while (activeSegmentCount > 0)\<close>: the events of the chunk after its
  first one, and the events that follow the chunk.
\<close>

fun chunkSplit :: "int \<Rightarrow> CenterEvent list \<Rightarrow> CenterEvent list \<times> CenterEvent list" where
  "chunkSplit active [] = ([], [])"
| "chunkSplit active (e # es) =
     (if active > 0 then
        (case chunkSplit (active + (if ce_start e then 1 else - 1)) es of
           (chunk, rest) \<Rightarrow> (e # chunk, rest))
      else ([], e # es))"

lemma chunkSplit_length: "length (snd (chunkSplit a es)) \<le> length es"
  by (induction es arbitrary: a) (auto simp: case_prod_beta intro: le_SucI)

function centerLoop :: "int list \<Rightarrow> int \<Rightarrow> CenterEvent list \<Rightarrow> int list \<Rightarrow> int list" where
  "centerLoop edgeColumnWidths minSpacing [] segmentOffsets = segmentOffsets"
| "centerLoop edgeColumnWidths minSpacing (chunkStart # es) segmentOffsets =
     (let chunk = fst (chunkSplit 1 es);
          chunkWidth = fold (\<lambda>e w. max w (vget segmentOffsets (ce_index e))) chunk 0 + minSpacing;
          spacing = (max (vget edgeColumnWidths (ce_x chunkStart)) minSpacing - chunkWidth) sdiv 2
      in centerLoop edgeColumnWidths minSpacing (snd (chunkSplit 1 es))
           (fold (\<lambda>e offs. if ce_start e
                            then vset (ce_index e) (vget offs (ce_index e) + spacing) offs else offs)
              (chunkStart # chunk) segmentOffsets))"
  by pat_completeness auto
termination
  apply (relation "measure (\<lambda>(w, m, es, offs). length es)")
   apply simp
  apply (simp add: chunkSplit_length le_imp_less_Suc)
  done

definition centerEdges :: "(CenterEvent list \<Rightarrow> CenterEvent list) \<Rightarrow> int list \<Rightarrow> int list \<Rightarrow> EdgeSegment list \<Rightarrow> int \<Rightarrow> int list" where
  "centerEdges center_ties segmentOffsets edgeColumnWidths segments minSpacing =
     centerLoop edgeColumnWidths minSpacing
       (std_sort center_ties center_less (centerEvents segmentOffsets edgeColumnWidths segments))
       segmentOffsets"

subsection \<open>compressCoordinates\<close>

definition positionToIndex :: "int list \<Rightarrow> int \<Rightarrow> error + int" where
  "positionToIndex positions position =
     (let index = length (takeWhile (\<lambda>p. p < position) positions)
      in if \<not> (index < length positions) then Inl AssertPositionIndex else Inr (int index))"

definition compressSegment :: "int list \<Rightarrow> EdgeSegment \<Rightarrow> error + EdgeSegment" where
  "compressSegment positions s =
     (case positionToIndex positions (seg_y0 s) of
        Inl e \<Rightarrow> Inl e
      | Inr a \<Rightarrow>
          (case positionToIndex positions (seg_y1 (s\<lparr>seg_y0 := a\<rparr>)) of
             Inl e \<Rightarrow> Inl e
           | Inr b \<Rightarrow> Inr (s\<lparr>seg_y0 := a, seg_y1 := b\<rparr>)))"

definition compressSide :: "int list \<Rightarrow> NodeSide \<times> NodeSide \<Rightarrow> error + NodeSide \<times> NodeSide" where
  "compressSide positions lr =
     (case lr of (l, r) \<Rightarrow>
        (case positionToIndex positions (ns_y0 l) of
           Inl e \<Rightarrow> Inl e
         | Inr a \<Rightarrow>
             (case positionToIndex positions (ns_y1 l) of
                Inl e \<Rightarrow> Inl e
              | Inr b \<Rightarrow> Inr (l\<lparr>ns_y0 := a, ns_y1 := b\<rparr>, r\<lparr>ns_y0 := a, ns_y1 := b\<rparr>))))"

fun mapE :: "('a \<Rightarrow> error + 'b) \<Rightarrow> 'a list \<Rightarrow> error + 'b list" where
  "mapE f [] = Inr []"
| "mapE f (a # as) =
     (case f a of
        Inl e \<Rightarrow> Inl e
      | Inr b \<Rightarrow> (case mapE f as of Inl e \<Rightarrow> Inl e | Inr bs \<Rightarrow> Inr (b # bs)))"

definition compressCoordinates :: "EdgeSegment list \<Rightarrow> NodeSide list \<Rightarrow> NodeSide list \<Rightarrow> error + EdgeSegment list \<times> NodeSide list \<times> NodeSide list \<times> nat" where
  "compressCoordinates segments leftSides rightSides =
     (let positions = remdups_adj (sort (concat (map (\<lambda>s. [seg_y0 s, seg_y1 s]) segments)
                                         @ concat (map (\<lambda>n. [ns_y0 n, ns_y1 n]) leftSides)))
      in case mapE (compressSegment positions) segments of
           Inl e \<Rightarrow> Inl e
         | Inr segs \<Rightarrow>
             if length leftSides \<noteq> length rightSides then Inl AssertSidesSize
             else (case mapE (compressSide positions) (zip leftSides rightSides) of
                     Inl e \<Rightarrow> Inl e
                   | Inr sides \<Rightarrow> Inr (segs, map fst sides, map snd sides, length positions)))"

section \<open>adjustColumnWidths and calculateColumnOffsets\<close>

definition adjustColumnWidthsBlock :: "ut64 \<Rightarrow> LayoutState \<Rightarrow> LayoutState" where
  "adjustColumnWidthsBlock k state =
     (let st1 = state\<lparr>blocks := umap_touch default_GraphBlock k (blocks state)\<rparr>;
          inputBlock = umap_at default_GraphBlock (blocks st1) k;
          node = umap_at default_GridBlock (grid_blocks st1) k;
          rh = vset (row node) (max (height inputBlock) (vget (rowHeight st1) (row node))) (rowHeight st1);
          edgeWidth = vget (edgeColumnWidth st1) (col node + 1);
          w = (width inputBlock - edgeWidth) sdiv 2;
          cw1 = vset (col node) (max w (vget (columnWidth st1) (col node))) (columnWidth st1);
          cw2 = vset (col node + 1) (max w (vget cw1 (col node + 1))) cw1
      in st1\<lparr>rowHeight := rh, columnWidth := cw2\<rparr>)"

definition adjustColumnWidths :: "(ut64 list \<Rightarrow> ut64 list) \<Rightarrow> LayoutState \<Rightarrow> LayoutState" where
  "adjustColumnWidths hord state =
     fold adjustColumnWidthsBlock (hord (umap_keys (grid_blocks state)))
       (state\<lparr>rowHeight := replicate (rows state) 0, columnWidth := replicate (columns state) 0\<rparr>)"

text \<open>
  \<open>calculateColumnOffsets\<close> adds up all widths in the variable \<open>int position\<close>, and its
  result is the width (the height) that the layout returns. The sum is the one place where
  the sizes of the whole input accumulate, so the 32-bit arithmetic is written out here:
  \<open>int32\<close> is the value that an \<open>int\<close> holds after an addition (two's complement, the
  sum wraps around).
\<close>

definition int32 :: "int \<Rightarrow> int" where
  "int32 v = sint (word_of_int v :: 32 word)"

text \<open>
  The loop of \<open>calculateColumnOffsets\<close>: the position after the last column, the column
  offsets and the offsets of the edge columns before them.
\<close>

fun columnOffsetsLoop :: "int list \<Rightarrow> int list \<Rightarrow> int \<Rightarrow> int \<times> int list \<times> int list" where
  "columnOffsetsLoop (w # ws) (e # es) position =
     (case columnOffsetsLoop ws es (int32 (int32 (position + e) + w)) of
        (p, co, eo) \<Rightarrow> (p, int32 (position + e) # co, position # eo))"
| "columnOffsetsLoop ws es position = (position, [], [])"

definition calculateColumnOffsets :: "int list \<Rightarrow> int list \<Rightarrow> error + int \<times> int list \<times> int list" where
  "calculateColumnOffsets columnWidths edgeColumnWidths =
     (if length edgeColumnWidths \<noteq> length columnWidths + 1 then Inl AssertColumnSizes
      else (case columnOffsetsLoop columnWidths edgeColumnWidths 0 of
              (p, co, eo) \<Rightarrow> Inr (int32 (p + last edgeColumnWidths), co, eo @ [p])))"

section \<open>What the standard leaves to the implementation\<close>

text \<open>
  The iteration order of the hash maps and the orders in which the four calls of
  \<open>std::sort\<close> take their elements are not fixed by the source. The functions above take
  them as arguments; the functions below take them together.
\<close>

record Implementation =
  hash_order :: "ut64 list \<Rightarrow> ut64 list"
  event_order :: "Event list \<Rightarrow> Event list"
  segment_order :: "EdgeSegment list \<Rightarrow> EdgeSegment list"
  side_order :: "NodeSide list \<Rightarrow> NodeSide list"
  center_order :: "CenterEvent list \<Rightarrow> CenterEvent list"

section \<open>elaborateEdgePlacement\<close>

definition edgesInOrder :: "(ut64 list \<Rightarrow> ut64 list) \<Rightarrow> LayoutState \<Rightarrow> GridEdge list" where
  "edgesInOrder hord state =
     concat (map (\<lambda>k. umap_at [] (edge state) k) (hord (umap_keys (edge state))))"

text \<open>The indices \<open>j = 1, 3, ...\<close> (vertical segments) or \<open>j = 2, 4, ...\<close> (horizontal) below \<open>n\<close>.\<close>

definition segmentIndices :: "bool \<Rightarrow> nat \<Rightarrow> nat list" where
  "segmentIndices vertical n = (if vertical then filter odd [1..<n] else filter even [2..<n])"

definition segmentFromPoint :: "Point \<Rightarrow> GridEdge \<Rightarrow> int \<Rightarrow> int \<Rightarrow> int \<Rightarrow> int \<Rightarrow> EdgeSegment" where
  "segmentFromPoint point e y0 y1 c edgeIndex =
     \<lparr>seg_y0 = y0, seg_y1 = y1, seg_x = c, seg_edgeIndex = edgeIndex,
      seg_secondaryPriority = secondaryPriority e,
      seg_kind = to_int16 (pt_kind point),
      seg_spacingOverride = to_int16 (pt_spacingOverride point)\<rparr>"

definition verticalSegmentsOf :: "GridEdge \<Rightarrow> (int \<Rightarrow> EdgeSegment) list" where
  "verticalSegmentsOf e =
     map (\<lambda>j. segmentFromPoint (points e ! j) e
                (pt_row (points e ! (j - 1)) * 2) (pt_row (points e ! j) * 2) (pt_col (points e ! j)))
       (segmentIndices True (length (points e)))"

definition horizontalSegmentsOf :: "int list \<Rightarrow> GridEdge \<Rightarrow> (int \<Rightarrow> EdgeSegment) list" where
  "horizontalSegmentsOf edgeColumnOffsets e =
     map (\<lambda>j. segmentFromPoint (points e ! j) e
                (vget edgeColumnOffsets (pt_col (points e ! (j - 1))) + pt_offset (points e ! (j - 1)))
                (vget edgeColumnOffsets (pt_col (points e ! (j + 1))) + pt_offset (points e ! (j + 1)))
                (pt_row (points e ! j)))
       (segmentIndices False (length (points e)))"

text \<open>The counter \<open>edgeIndex\<close> numbers the segments in the order of their creation.\<close>

definition numberSegments :: "(int \<Rightarrow> EdgeSegment) list \<Rightarrow> EdgeSegment list" where
  "numberSegments fs = map (\<lambda>(i, f). f (int i)) (enumerate 0 fs)"

definition verticalSides :: "ut64 \<Rightarrow> LayoutState \<times> NodeSide list \<times> NodeSide list \<Rightarrow> LayoutState \<times> NodeSide list \<times> NodeSide list" where
  "verticalSides k acc =
     (case acc of (state, leftSides, rightSides) \<Rightarrow>
        (let node = umap_at default_GridBlock (grid_blocks state) k;
             st1 = state\<lparr>blocks := umap_touch default_GraphBlock k (blocks state)\<rparr>;
             w = width (umap_at default_GraphBlock (blocks st1) k);
             leftWidth = w sdiv 2;
             rightWidth = w - leftWidth;
             r = row node * 2 + 1
         in (st1,
             leftSides @ [\<lparr>ns_x = col node, ns_y0 = r, ns_y1 = r, ns_size = leftWidth\<rparr>],
             rightSides @ [\<lparr>ns_x = col node + 1, ns_y0 = r, ns_y1 = r, ns_size = rightWidth\<rparr>])))"

definition horizontalSides :: "GraphGridLayout \<Rightarrow> ut64 \<Rightarrow> LayoutState \<times> NodeSide list \<times> NodeSide list \<Rightarrow> LayoutState \<times> NodeSide list \<times> NodeSide list" where
  "horizontalSides L k acc =
     (case acc of (state, leftSides, rightSides) \<Rightarrow>
        (let node = umap_at default_GridBlock (grid_blocks state) k;
             st1 = state\<lparr>blocks := umap_touch default_GraphBlock (block_id node) (blocks state)\<rparr>;
             blockWidth = width (umap_at default_GraphBlock (blocks st1) (block_id node));
             leftSide = vget (edgeColumnOffset st1) (col node + 1)
                          + vget (edgeColumnWidth st1) (col node + 1) sdiv 2 - blockWidth sdiv 2;
             rightSide = leftSide + blockWidth;
             st2 = st1\<lparr>blocks := umap_touch default_GraphBlock k (blocks st1)\<rparr>;
             h = height (umap_at default_GraphBlock (blocks st2) k);
             freeSpace = vget (rowHeight st2) (row node) - h;
             topProfile = vget (rowHeight st2) (row node)
                            - (if verticalBlockAlignmentMiddle L then freeSpace sdiv 2 else 0);
             bottomProfile = h + (if verticalBlockAlignmentMiddle L then freeSpace sdiv 2 else 0)
         in (st2,
             leftSides @ [\<lparr>ns_x = row node, ns_y0 = leftSide, ns_y1 = rightSide, ns_size = topProfile\<rparr>],
             rightSides @ [\<lparr>ns_x = row node, ns_y0 = leftSide, ns_y1 = rightSide, ns_size = bottomProfile\<rparr>])))"

text \<open>
  \<open>v.assign(n, inner); v[0] = v.back() = outer\<close>: the spacing of the edge columns (rows).
\<close>

definition edgeSpacing :: "nat \<Rightarrow> int \<Rightarrow> int \<Rightarrow> int list" where
  "edgeSpacing n inner outer =
     (let v = replicate n inner;
          v1 = v[length v - 1 := outer]
      in v1[0 := outer])"

text \<open>The lambda \<open>copySegmentsToEdges\<close>, with its own counter \<open>edgeIndex\<close>.\<close>

definition copyToEdge :: "bool \<Rightarrow> int list \<Rightarrow> GridEdge \<Rightarrow> nat \<Rightarrow> GridEdge \<times> nat" where
  "copyToEdge vertical edgeOffsets e n =
     (let js = segmentIndices vertical (length (points e))
      in (e\<lparr>points := fold (\<lambda>(i, j) ps. ps[j := (ps ! j)\<lparr>pt_offset := edgeOffsets ! (n + i)\<rparr>])
                         (enumerate 0 js) (points e)\<rparr>,
          n + length js))"

fun copyToEdges :: "bool \<Rightarrow> int list \<Rightarrow> GridEdge list \<Rightarrow> nat \<Rightarrow> GridEdge list \<times> nat" where
  "copyToEdges vertical edgeOffsets [] n = ([], n)"
| "copyToEdges vertical edgeOffsets (e # es) n =
     (case copyToEdge vertical edgeOffsets e n of
        (e', n') \<Rightarrow>
          (case copyToEdges vertical edgeOffsets es n' of
             (es', n'') \<Rightarrow> (e' # es', n'')))"

definition copySegmentsToEdges :: "bool \<Rightarrow> int list \<Rightarrow> (ut64 list \<Rightarrow> ut64 list) \<Rightarrow> LayoutState \<Rightarrow> LayoutState" where
  "copySegmentsToEdges vertical edgeOffsets hord state =
     state\<lparr>edge :=
       fst (fold (\<lambda>k acc. case acc of (em, n) \<Rightarrow>
                    (case copyToEdges vertical edgeOffsets (umap_at [] em k) n of
                       (es', n') \<Rightarrow> (umap_put k es' em, n')))
              (hord (umap_keys (edge state))) (edge state, 0))\<rparr>"

text \<open>The correction of the offsets of the segments of kind \<open>-2\<close> and \<open>2\<close>.\<close>

definition fixOuterOffset :: "LayoutState \<Rightarrow> int list \<Rightarrow> EdgeSegment \<Rightarrow> int list \<Rightarrow> int list" where
  "fixOuterOffset state oldColumnWidths s edgeOffsets =
     (if seg_kind s = - 2 then
        vset (seg_edgeIndex s)
          (vget edgeOffsets (seg_edgeIndex s)
             - ((vget (edgeColumnWidth state) (seg_x s - 1) sdiv 2 + vget (columnWidth state) (seg_x s - 1))
                - vget oldColumnWidths (seg_x s - 1))) edgeOffsets
      else if seg_kind s = 2 then
        vset (seg_edgeIndex s)
          (vget edgeOffsets (seg_edgeIndex s)
             + ((vget (edgeColumnWidth state) (seg_x s + 1) sdiv 2 + vget (columnWidth state) (seg_x s))
                - vget oldColumnWidths (seg_x s))) edgeOffsets
      else edgeOffsets)"

text \<open>
  The local variables of \<open>elaborateEdgePlacement\<close>: the state, the segments of the
  current pass, the sides of the nodes and the offsets of the segments.
\<close>

record EdgePlacement =
  ep_state :: LayoutState
  ep_segments :: "EdgeSegment list"
  ep_leftSides :: "NodeSide list"
  ep_rightSides :: "NodeSide list"
  ep_edgeOffsets :: "int list"

text \<open>The vertical pass up to the call of \<open>calculateSegmentOffsets\<close>.\<close>

definition verticalSetup :: "GraphGridLayout \<Rightarrow> (ut64 list \<Rightarrow> ut64 list) \<Rightarrow> LayoutState \<Rightarrow> EdgePlacement" where
  "verticalSetup L hord state =
     (let segments = numberSegments (concat (map verticalSegmentsOf (edgesInOrder hord state)));
          sides = fold verticalSides (hord (umap_keys (grid_blocks state))) (state, [], []);
          st1 = fst sides
      in \<lparr>ep_state = st1\<lparr>edgeColumnWidth :=
                          edgeSpacing (columns st1 + 1) (blockHorizontalSpacing (layoutConfig L))
                            (edgeHorizontalSpacing (layoutConfig L))\<rparr>,
          ep_segments = segments,
          ep_leftSides = fst (snd sides),
          ep_rightSides = snd (snd sides),
          ep_edgeOffsets = replicate (length segments) 0\<rparr>)"

text \<open>\<open>calculateSegmentOffsets\<close> and \<open>centerEdges\<close> for the vertical segments.\<close>

definition verticalOffsets :: "GraphGridLayout \<Rightarrow> Implementation \<Rightarrow> EdgePlacement \<Rightarrow> EdgePlacement" where
  "verticalOffsets L impl ep =
     (let st = ep_state ep;
          r = calculateSegmentOffsets (segment_order impl) (side_order impl)
                (ep_segments ep) (ep_edgeOffsets ep) (edgeColumnWidth st)
                (ep_rightSides ep) (ep_leftSides ep) (columnWidth st) (2 * rows st + 1)
                (edgeHorizontalSpacing (layoutConfig L));
          widths = snd (snd r)
      in ep\<lparr>ep_state := st\<lparr>edgeColumnWidth := widths\<rparr>,
            ep_segments := fst r,
            ep_edgeOffsets := centerEdges (center_order impl) (fst (snd r)) widths (fst r)
                                (blockHorizontalSpacing (layoutConfig L))\<rparr>)"

text \<open>
  \<open>adjustColumnWidths\<close>, the correction of the outer segments, the column offsets and
  \<open>copySegmentsToEdges(true)\<close>.
\<close>

definition verticalFinish :: "(ut64 list \<Rightarrow> ut64 list) \<Rightarrow> EdgePlacement \<Rightarrow> error + EdgePlacement" where
  "verticalFinish hord ep =
     (let oldColumnWidths = columnWidth (ep_state ep);
          st2 = adjustColumnWidths hord (ep_state ep);
          offs = fold (fixOuterOffset st2 oldColumnWidths) (ep_segments ep) (ep_edgeOffsets ep)
      in case calculateColumnOffsets (columnWidth st2) (edgeColumnWidth st2) of
           Inl e \<Rightarrow> Inl e
         | Inr r \<Rightarrow>
             Inr (ep\<lparr>ep_state := copySegmentsToEdges True offs hord
                                    (st2\<lparr>columnOffset := fst (snd r), edgeColumnOffset := snd (snd r)\<rparr>),
                     ep_edgeOffsets := offs\<rparr>))"

text \<open>The horizontal pass up to \<open>compressCoordinates\<close>.\<close>

definition horizontalSetup :: "GraphGridLayout \<Rightarrow> (ut64 list \<Rightarrow> ut64 list) \<Rightarrow> EdgePlacement \<Rightarrow> EdgePlacement" where
  "horizontalSetup L hord ep =
     (let st3 = ep_state ep;
          segments = numberSegments
                       (concat (map (horizontalSegmentsOf (edgeColumnOffset st3)) (edgesInOrder hord st3)));
          sides = fold (horizontalSides L) (hord (umap_keys (grid_blocks st3))) (st3, [], []);
          st4 = fst sides
      in \<lparr>ep_state = st4\<lparr>edgeRowHeight :=
                          edgeSpacing (rows st4 + 1) (blockVerticalSpacing (layoutConfig L))
                            (edgeVerticalSpacing (layoutConfig L))\<rparr>,
          ep_segments = segments,
          ep_leftSides = fst (snd sides),
          ep_rightSides = snd (snd sides),
          ep_edgeOffsets = resize (length segments) 0 (ep_edgeOffsets ep)\<rparr>)"

text \<open>
  \<open>compressCoordinates\<close>, \<open>calculateSegmentOffsets\<close> for the horizontal segments and
  \<open>copySegmentsToEdges(false)\<close>.
\<close>

definition horizontalOffsets :: "GraphGridLayout \<Rightarrow> Implementation \<Rightarrow> EdgePlacement \<Rightarrow> error + LayoutState" where
  "horizontalOffsets L impl ep =
     (case compressCoordinates (ep_segments ep) (ep_leftSides ep) (ep_rightSides ep) of
        Inl e \<Rightarrow> Inl e
      | Inr c \<Rightarrow>
          (let st = ep_state ep;
               r = calculateSegmentOffsets (segment_order impl) (side_order impl)
                     (fst c) (ep_edgeOffsets ep) (edgeRowHeight st)
                     (fst (snd (snd c))) (fst (snd c)) (rowHeight st) (snd (snd (snd c)))
                     (edgeVerticalSpacing (layoutConfig L))
           in Inr (copySegmentsToEdges False (fst (snd r)) (hash_order impl)
                     (st\<lparr>edgeRowHeight := snd (snd r)\<rparr>))))"

definition elaborateEdgePlacement :: "GraphGridLayout \<Rightarrow> Implementation \<Rightarrow> LayoutState \<Rightarrow> error + LayoutState" where
  "elaborateEdgePlacement L impl state =
     (case verticalFinish (hash_order impl)
             (verticalOffsets L impl (verticalSetup L (hash_order impl) state)) of
        Inl e \<Rightarrow> Inl e
      | Inr ep \<Rightarrow> horizontalOffsets L impl (horizontalSetup L (hash_order impl) ep))"

definition routeEdges :: "GraphGridLayout \<Rightarrow> Implementation \<Rightarrow> LayoutState \<Rightarrow> error + LayoutState" where
  "routeEdges L impl state =
     (case calculateEdgeMainColumn (hash_order impl) (event_order impl) state of
        Inl e \<Rightarrow> Inl e
      | Inr st1 \<Rightarrow>
          (case roughRouting L (hash_order impl) st1 of
             Inl e \<Rightarrow> Inl e
           | Inr st2 \<Rightarrow> elaborateEdgePlacement L impl st2))"

section \<open>convertToPixelCoordinates\<close>

definition blockPixel :: "GraphGridLayout \<Rightarrow> ut64 \<Rightarrow> LayoutState \<Rightarrow> LayoutState" where
  "blockPixel L k state =
     (let st1 = state\<lparr>grid_blocks := umap_touch default_GridBlock k (grid_blocks state)\<rparr>;
          gridBlock = umap_at default_GridBlock (grid_blocks st1) k;
          b = umap_at default_GraphBlock (blocks st1) k;
          px = vget (edgeColumnOffset st1) (col gridBlock + 1)
                 + vget (edgeColumnWidth st1) (col gridBlock + 1) sdiv 2 - width b sdiv 2;
          py = vget (rowOffset st1) (row gridBlock)
                 + (if verticalBlockAlignmentMiddle L
                    then (vget (rowHeight st1) (row gridBlock) - height b) sdiv 2 else 0)
      in st1\<lparr>blocks := umap_put k (b\<lparr>blk_x := px, blk_y := py\<rparr>) (blocks st1)\<rparr>)"

definition setLast :: "('a \<Rightarrow> 'a) \<Rightarrow> 'a list \<Rightarrow> 'a list" where
  "setLast f ps = (if ps = [] then [] else butlast ps @ [f (last ps)])"

definition polylineStep :: "LayoutState \<Rightarrow> GridEdge \<Rightarrow> nat \<Rightarrow> (int \<times> int) list \<Rightarrow> (int \<times> int) list" where
  "polylineStep state e j pl =
     (if odd j then
        (let px = vget (edgeColumnOffset state) (pt_col (points e ! j)) + pt_offset (points e ! j)
         in setLast (\<lambda>p. (px, snd p)) pl @ [(px, 0)])
      else
        (let py = vget (edgeRowOffset state) (pt_row (points e ! j)) + pt_offset (points e ! j)
         in setLast (\<lambda>p. (fst p, py)) pl @ [(0, py)]))"

definition edgePolyline :: "ut64 \<Rightarrow> nat \<Rightarrow> LayoutState \<Rightarrow> LayoutState" where
  "edgePolyline k i state =
     (let block = umap_at default_GraphBlock (blocks state) k;
          resultEdge = edges block ! i;
          st1 = state\<lparr>blocks := umap_touch default_GraphBlock (target resultEdge) (blocks state)\<rparr>;
          tgt = umap_at default_GraphBlock (blocks st1) (target resultEdge);
          st2 = st1\<lparr>edge := umap_touch [] k (edge st1)\<rparr>;
          e = umap_at [] (edge st2) k ! i;
          pl = fold (polylineStep st2 e) [1..<length (points e)] [(0, blk_y block + height block)];
          pl2 = setLast (\<lambda>p. (fst p, blk_y tgt)) pl;
          block2 = umap_at default_GraphBlock (blocks st2) k
      in st2\<lparr>blocks := umap_put k
                 (block2\<lparr>edges := (edges block2)[i := (edges block2 ! i)\<lparr>polyline := pl2\<rparr>]\<rparr>)
                 (blocks st2)\<rparr>)"

definition blockPolylines :: "ut64 \<Rightarrow> LayoutState \<Rightarrow> LayoutState" where
  "blockPolylines k state =
     fold (edgePolyline k) [0..<length (edges (umap_at default_GraphBlock (blocks state) k))] state"

definition convertToPixelCoordinates :: "GraphGridLayout \<Rightarrow> (ut64 list \<Rightarrow> ut64 list) \<Rightarrow> LayoutState \<Rightarrow> error + LayoutState \<times> int \<times> int" where
  "convertToPixelCoordinates L hord state =
     (case calculateColumnOffsets (columnWidth state) (edgeColumnWidth state) of
        Inl e \<Rightarrow> Inl e
      | Inr (w, co, eo) \<Rightarrow>
          (case calculateColumnOffsets (rowHeight state) (edgeRowHeight state) of
             Inl e \<Rightarrow> Inl e
           | Inr (h, ro, ero) \<Rightarrow>
               (let st1 = state\<lparr>columnOffset := co, edgeColumnOffset := eo,
                                rowOffset := ro, edgeRowOffset := ero\<rparr>;
                    st2 = fold (blockPixel L) (hord (umap_keys (blocks st1))) st1;
                    st3 = fold blockPolylines (hord (umap_keys (blocks st2))) st2
                in Inr (st3, w, h))))"

section \<open>CalculateLayout\<close>

definition emptyLayoutState :: "(ut64 \<times> GraphBlock) list \<Rightarrow> LayoutState" where
  "emptyLayoutState bs =
     \<lparr>blocks = bs, grid_blocks = [], edge = [], rows = 0, columns = 0,
      columnWidth = [], rowHeight = [], edgeColumnWidth = [], edgeRowHeight = [],
      columnOffset = [], rowOffset = [], edgeColumnOffset = [], edgeRowOffset = []\<rparr>"

text \<open>
  The state with which \<open>CalculateLayout\<close> ends, and the width and the height it returns.
  \<open>placedLayout\<close> is the state after \<open>computeAllBlockPlacement\<close>, \<open>gridLayout\<close> the state
  that \<open>routeEdges\<close> receives.
\<close>

definition placedLayout :: "GraphGridLayout \<Rightarrow> (ut64 list \<Rightarrow> ut64 list) \<Rightarrow> (ut64 \<times> GraphBlock) list \<Rightarrow> ut64 \<Rightarrow> error + LayoutState" where
  "placedLayout L hord bs entry =
     (case topoSort hord (initGridBlocks hord (emptyLayoutState bs)) entry of
        (layoutState, order) \<Rightarrow> computeAllBlockPlacement L hord order layoutState)"

definition gridLayout :: "GraphGridLayout \<Rightarrow> (ut64 list \<Rightarrow> ut64 list) \<Rightarrow> (ut64 \<times> GraphBlock) list \<Rightarrow> ut64 \<Rightarrow> error + LayoutState" where
  "gridLayout L hord bs entry =
     (case placedLayout L hord bs entry of
        Inl e \<Rightarrow> Inl e
      | Inr layoutState \<Rightarrow>
          Inr (initSizes hord (gridSize hord (countEdges hord (initEdges hord layoutState)))))"

definition CalculateLayout_state :: "GraphGridLayout \<Rightarrow> Implementation \<Rightarrow> (ut64 \<times> GraphBlock) list \<Rightarrow> ut64 \<Rightarrow> error + LayoutState \<times> int \<times> int" where
  "CalculateLayout_state L impl bs entry =
     (case gridLayout L (hash_order impl) bs entry of
        Inl e \<Rightarrow> Inl e
      | Inr layoutState \<Rightarrow>
          (case routeEdges L impl layoutState of
             Inl e \<Rightarrow> Inl e
           | Inr routed \<Rightarrow> convertToPixelCoordinates L (hash_order impl) routed))"

text \<open>
  \<open>CalculateLayout(blocks, entry, width, height)\<close>: the caller's map with the positions
  and polylines filled in, the width and the height.
\<close>

definition CalculateLayout :: "GraphGridLayout \<Rightarrow> Implementation \<Rightarrow> (ut64 \<times> GraphBlock) list \<Rightarrow> ut64 \<Rightarrow> error + (ut64 \<times> GraphBlock) list \<times> int \<times> int" where
  "CalculateLayout L impl bs entry =
     (case CalculateLayout_state L impl bs entry of
        Inl e \<Rightarrow> Inl e
      | Inr (layoutState, w, h) \<Rightarrow> Inr (blocks layoutState, w, h))"

section \<open>Statements about the layout\<close>

text \<open>
  An enumeration order of a hash map lists every key of the map exactly once, and
  \<open>std::sort\<close> takes every element of its vector exactly once. An implementation is
  conforming when its five orders do so. The implementation \<open>in_order\<close> enumerates a
  hash map in the order of the insertions and sorts by insertion from the back of the
  vector, which leaves equivalent elements in their original order.
\<close>

definition enumerates :: "(ut64 list \<Rightarrow> ut64 list) \<Rightarrow> bool" where
  "enumerates hord = (\<forall>ks. mset (hord ks) = mset ks)"

definition permutes :: "('a list \<Rightarrow> 'a list) \<Rightarrow> bool" where
  "permutes f = (\<forall>xs. mset (f xs) = mset xs)"

definition conforming :: "Implementation \<Rightarrow> bool" where
  "conforming impl =
     (enumerates (hash_order impl) \<and> permutes (event_order impl) \<and> permutes (segment_order impl)
      \<and> permutes (side_order impl) \<and> permutes (center_order impl))"

definition in_order :: Implementation where
  "in_order = \<lparr>hash_order = (\<lambda>ks. ks), event_order = (\<lambda>xs. xs), segment_order = (\<lambda>xs. xs),
                side_order = (\<lambda>xs. xs), center_order = (\<lambda>xs. xs)\<rparr>"

definition config10 :: LayoutConfig where
  "config10 = \<lparr>blockVerticalSpacing = 10, blockHorizontalSpacing = 10,
                edgeVerticalSpacing = 10, edgeHorizontalSpacing = 10\<rparr>"

text \<open>An input block of the given size whose edges go to the given targets.\<close>

definition block_of :: "int \<Rightarrow> int \<Rightarrow> ut64 list \<Rightarrow> GraphBlock" where
  "block_of w h ts =
     \<lparr>blk_x = 0, blk_y = 0, width = w, height = h,
      edges = map (\<lambda>t. \<lparr>target = t, polyline = []\<rparr>) ts\<rparr>"

text \<open>The state after \<open>calculateEdgeMainColumn\<close> and \<open>roughRouting\<close>.\<close>

definition roughLayout :: "GraphGridLayout \<Rightarrow> Implementation \<Rightarrow> (ut64 \<times> GraphBlock) list \<Rightarrow> ut64 \<Rightarrow> error + LayoutState" where
  "roughLayout L impl bs entry =
     (case gridLayout L (hash_order impl) bs entry of
        Inl e \<Rightarrow> Inl e
      | Inr layoutState \<Rightarrow>
          (case calculateEdgeMainColumn (hash_order impl) (event_order impl) layoutState of
             Inl e \<Rightarrow> Inl e
           | Inr st1 \<Rightarrow> roughRouting L (hash_order impl) st1))"

text \<open>
  An enumeration that lists the two keys 1 and 2 in the opposite order, and the
  implementation that differs from \<open>in_order\<close> in this enumeration only.
\<close>

definition swapped_order :: "ut64 list \<Rightarrow> ut64 list" where
  "swapped_order ks = (if ks = [1, 2] then [2, 1] else ks)"

definition swapped :: Implementation where
  "swapped = in_order\<lparr>hash_order := swapped_order\<rparr>"

lemmas umap_defs = umap_keys_def umap_at_def umap_touch_def umap_put_def grid_modify_def
lemmas dfs_defs = topoSort_def topoSort_dfs_def dfsFragment_def dfsRemaining_def dfsStep_def push_dag_edge_def
  dfsLoop.simps initGridBlocks_def emptyLayoutState_def default_GridBlock_def default_GraphBlock_def
lemmas place_defs = computeAllBlockPlacement_def assignRows_def assignRowsBlock_def raiseRow_def
  selectTree_def selectTreeBlock_def selectTreeEdge_def findMergePoints_def findMergePointsBlock_def
  mergeScan_def placeBlock_def placeChild_def parentColumn_def placeRoot_def absolutePosition_def
  add_head_def INT_MIN_def div_int_by_size_def
lemmas grid_defs = initEdges_def initEdgesBlock_def countEdges_def countEdgesOf_def gridSize_def
  initSizes_def initSizesBlock_def vget_def vset_def resize_def default_GridEdge_def
lemmas route_defs = routeEdges_def calculateEdgeMainColumn_def blockEvents_def edgeEvent_def
  processEvent_def std_sort_def event_less_def event_type_int_def valueAtPoint_def
  rightMostLessThan_def leftMostLessThan_def setMainColumn_def
  roughRouting_def routeBlockEdges_def routeEdge_def routePoints_def addPoint_def
  getSpacingOverride_def setFrontSpacing_def setBackSpacing_def
lemmas elab_defs = elaborateEdgePlacement_def verticalSetup_def verticalOffsets_def verticalFinish_def
  horizontalSetup_def horizontalOffsets_def edgesInOrder_def numberSegments_def
  verticalSegmentsOf_def horizontalSegmentsOf_def segmentIndices_def segmentFromPoint_def
  verticalSides_def horizontalSides_def edgeSpacing_def copySegmentsToEdges_def copyToEdge_def
  fixOuterOffset_def calculateSegmentOffsets_def offsetsLoop.simps segmentColumn_def columnPass_def
  placeSegment_def applySides_def setRange_def rangeMaximum_def segment_less_def node_less_def
  swapEnds_def to_int16_def centerEdges_def centerEvents_def center_less_def
  compressCoordinates_def compressSegment_def compressSide_def positionToIndex_def
  adjustColumnWidths_def adjustColumnWidthsBlock_def calculateColumnOffsets_def int32_def
lemmas pixel_defs = convertToPixelCoordinates_def blockPixel_def blockPolylines_def edgePolyline_def
  polylineStep_def setLast_def
lemmas top_defs = CalculateLayout_def CalculateLayout_state_def gridLayout_def placedLayout_def
  new_GraphGridLayout_def
lemmas layout_defs = umap_defs dfs_defs place_defs grid_defs route_defs elab_defs pixel_defs top_defs

subsection \<open>Enumerations\<close>

lemma enumerates_id: "enumerates (\<lambda>ks. ks)"
  by (simp add: enumerates_def)

lemma enumerates_swapped_order: "enumerates swapped_order"
  by (simp add: enumerates_def swapped_order_def)

lemma enumerates_Nil: "enumerates hord \<Longrightarrow> hord [] = []"
proof -
  assume "enumerates hord"
  then have "mset (hord []) = {#}" by (simp add: enumerates_def)
  then show ?thesis by simp
qed

lemma enumerates_single: "enumerates hord \<Longrightarrow> hord [k] = [k]"
proof -
  assume "enumerates hord"
  then have "mset (hord [k]) = {#k#}" by (simp add: enumerates_def)
  then show ?thesis by (simp add: mset_single_iff_right)
qed

lemma enumerates_set: "enumerates hord \<Longrightarrow> set (hord ks) = set ks"
  unfolding enumerates_def by (metis set_mset_mset)

lemma enumerates_distinct: "enumerates hord \<Longrightarrow> distinct (hord ks) = distinct ks"
  unfolding enumerates_def by (metis mset_eq_imp_distinct_iff)

lemma permutes_Nil: "permutes f \<Longrightarrow> f [] = []"
proof -
  assume "permutes f"
  then have "mset (f []) = {#}" by (simp add: permutes_def)
  then show ?thesis by simp
qed

lemma permutes_single: "permutes f \<Longrightarrow> f [x] = [x]"
proof -
  assume "permutes f"
  then have "mset (f [x]) = {#x#}" by (simp add: permutes_def)
  then show ?thesis by (simp add: mset_single_iff_right)
qed

lemma conforming_in_order: "conforming in_order"
  by (simp add: conforming_def in_order_def enumerates_def permutes_def)

lemma conforming_swapped: "conforming swapped"
  by (simp add: conforming_def swapped_def in_order_def enumerates_swapped_order permutes_def)

lemma conforming_enumerates: "conforming impl \<Longrightarrow> enumerates (hash_order impl)"
  by (simp add: conforming_def)

text \<open>A conforming implementation leaves a vector or a map of at most one element as it is.\<close>

lemma conforming_small:
  assumes "conforming impl"
  shows "hash_order impl [] = []" "hash_order impl [k] = [k]"
    "event_order impl [] = []" "event_order impl [e] = [e]"
    "segment_order impl [] = []" "segment_order impl [s] = [s]"
    "side_order impl [] = []" "side_order impl [n] = [n]"
    "center_order impl [] = []" "center_order impl [c] = [c]"
  using assms
  by (simp_all add: conforming_def enumerates_Nil enumerates_single permutes_Nil permutes_single)

subsection \<open>Grid blocks as a function of the id\<close>

definition gb :: "(ut64 \<times> GridBlock) list \<Rightarrow> ut64 \<Rightarrow> GridBlock" where
  "gb g = umap_at default_GridBlock g"

definition edges_of :: "(ut64 \<times> GraphBlock) list \<Rightarrow> ut64 \<Rightarrow> GraphEdge list" where
  "edges_of bs v = edges (umap_at default_GraphBlock bs v)"

lemma umap_at_put: "umap_at d (umap_put k v m) = (umap_at d m)(k := v)"
  by (rule ext) (simp add: umap_at_def umap_put_def update_conv')

lemma gb_touch [simp]: "gb (umap_touch default_GridBlock k g) = gb g"
  by (simp add: gb_def)

lemma gb_put [simp]: "gb (umap_put k v g) = (gb g)(k := v)"
  by (simp add: gb_def umap_at_put)

lemma gb_modify [simp]: "gb (grid_modify k f g) = (gb g)(k := f (gb g k))"
  by (simp add: grid_modify_def gb_def umap_at_put)

lemma gb_push_dag_edge [simp]:
  "gb (push_dag_edge v t g) = (gb g)(v := (gb g v)\<lparr>dag_edge := dag_edge (gb g v) @ [t]\<rparr>)"
  by (simp add: push_dag_edge_def Let_def gb_def umap_at_put)

lemma edges_of_touch [simp]: "edges_of (umap_touch default_GraphBlock k bs) = edges_of bs"
  by (rule ext) (simp add: edges_of_def)

lemma edges_of_keys: "edges_of bs k \<noteq> [] \<Longrightarrow> k \<in> set (umap_keys bs)"
  by (auto simp: edges_of_def umap_at_def umap_keys_def default_GraphBlock_def map_of_eq_None_iff
      split: option.splits dest!: map_of_SomeD intro: rev_image_eqI)

lemma keys_touch: "set (umap_keys (umap_touch d k m)) = insert k (set (umap_keys m))"
  by (auto simp: umap_keys_def umap_touch_def map_of_eq_None_iff split: option.splits
      dest: map_of_SomeD) (metis fst_conv image_eqI map_of_SomeD)

subsection \<open>The loop of the DFS\<close>

lemma dfsLoop_rule:
  assumes "P s" and "\<And>s. P s \<Longrightarrow> stack s \<noteq> [] \<Longrightarrow> P (dfsStep s)"
  shows "P (dfsLoop s) \<and> stack (dfsLoop s) = []"
  using assms(1)
proof (induction s rule: dfsLoop.induct)
  case (1 s)
  show ?case
  proof (cases "stack s = []")
    case True
    with "1.prems" show ?thesis by (simp add: dfsLoop.simps)
  next
    case False
    have "P (dfsStep s)" using "1.prems" False by (rule assms(2))
    with "1.IH" False have "P (dfsLoop (dfsStep s)) \<and> stack (dfsLoop (dfsStep s)) = []" by simp
    with False show ?thesis by (simp add: dfsLoop.simps)
  qed
qed

lemma dfsStep_cases [consumes 1, case_names popped pushed crossed looped]:
  assumes "stack s \<noteq> []"
  obtains
    (popped) v i rest where "stack s = (v, i) # rest" "\<not> i < length (edges_of (dfs_blocks s) v)"
      "dfsStep s = s\<lparr>dfs_blocks := umap_touch default_GraphBlock v (dfs_blocks s),
            visited := (visited s)(v := Visited), stack := rest,
            blockOrder := blockOrder s @ [v]\<rparr>"
  | (pushed) v i rest t where "stack s = (v, i) # rest" "i < length (edges_of (dfs_blocks s) v)"
      "t = target (edges_of (dfs_blocks s) v ! i)" "visited s t = NotVisited"
      "dfsStep s = s\<lparr>dfs_blocks := umap_touch default_GraphBlock v (dfs_blocks s),
            dfs_grid := push_dag_edge v t (dfs_grid s),
            visited := (visited s)(t := InStack), stack := (t, 0) # (v, Suc i) # rest\<rparr>"
  | (crossed) v i rest t where "stack s = (v, i) # rest" "i < length (edges_of (dfs_blocks s) v)"
      "t = target (edges_of (dfs_blocks s) v ! i)" "visited s t = Visited"
      "dfsStep s = s\<lparr>dfs_blocks := umap_touch default_GraphBlock v (dfs_blocks s),
            dfs_grid := push_dag_edge v t (dfs_grid s), stack := (v, Suc i) # rest\<rparr>"
  | (looped) v i rest t where "stack s = (v, i) # rest" "i < length (edges_of (dfs_blocks s) v)"
      "t = target (edges_of (dfs_blocks s) v ! i)" "visited s t = InStack"
      "dfsStep s = s\<lparr>dfs_blocks := umap_touch default_GraphBlock v (dfs_blocks s),
            stack := (v, Suc i) # rest\<rparr>"
proof -
  obtain v i rest where st: "stack s = (v, i) # rest"
    using assms by (cases "stack s") auto
  show ?thesis
  proof (cases "i < length (edges_of (dfs_blocks s) v)")
    case False
    then show ?thesis
      using st dfsStep_pop [of s v i rest] popped [of v i rest] by (simp add: edges_of_def)
  next
    case True
    let ?t = "target (edges_of (dfs_blocks s) v ! i)"
    show ?thesis
    proof (cases "visited s ?t")
      case NotVisited
      then show ?thesis
        using st True dfsStep_push [of s v i rest ?t] pushed [of v i rest ?t] by (simp add: edges_of_def)
    next
      case InStack
      then show ?thesis
        using st True dfsStep_back [of s v i rest ?t] looped [of v i rest ?t] by (simp add: edges_of_def)
    next
      case Visited
      then show ?thesis
        using st True dfsStep_cross [of s v i rest ?t] crossed [of v i rest ?t] by (simp add: edges_of_def)
    qed
  qed
qed

text \<open>The stack holds the nodes in state \<open>InStack\<close>, the order those in state \<open>Visited\<close>.\<close>

definition dfs_marks :: "DfsState \<Rightarrow> bool" where
  "dfs_marks s =
     (distinct (map fst (stack s)) \<and> (\<forall>v. (v \<in> fst ` set (stack s)) = (visited s v = InStack)) \<and>
      distinct (blockOrder s) \<and> (\<forall>v. (v \<in> set (blockOrder s)) = (visited s v = Visited)))"

lemma dfs_marks_top:
  assumes "dfs_marks s" "stack s = (v, i) # rest"
  shows "visited s v = InStack" and "v \<notin> fst ` set rest" and "v \<notin> set (blockOrder s)"
    and "\<And>u. (u \<in> fst ` set rest) = (visited s u = InStack \<and> u \<noteq> v)"
proof -
  have a: "\<And>u. (u \<in> fst ` set (stack s)) = (visited s u = InStack)"
    and b: "\<And>u. (u \<in> set (blockOrder s)) = (visited s u = Visited)"
    and d: "distinct (map fst (stack s))"
    using assms(1) by (simp_all add: dfs_marks_def)
  show v: "visited s v = InStack" using a [of v] assms(2) by simp
  show n: "v \<notin> fst ` set rest" using d assms(2) by simp
  show "v \<notin> set (blockOrder s)" using b [of v] v by simp
  show "\<And>u. (u \<in> fst ` set rest) = (visited s u = InStack \<and> u \<noteq> v)"
    using a assms(2) n by auto
qed

lemma dfs_marks_step:
  assumes "dfs_marks s" "stack s \<noteq> []"
  shows "dfs_marks (dfsStep s)"
  using assms(2)
proof (cases rule: dfsStep_cases)
  case (popped v i rest)
  note top = dfs_marks_top [OF assms(1) popped(1)]
  have b: "\<And>u. (u \<in> set (blockOrder s)) = (visited s u = Visited)"
    and d: "distinct (map fst (stack s))" "distinct (blockOrder s)"
    using assms(1) by (simp_all add: dfs_marks_def)
  show ?thesis
    unfolding dfs_marks_def popped(3) using top b d popped(1) by auto
next
  case (pushed v i rest t)
  note top = dfs_marks_top [OF assms(1) pushed(1)]
  have a: "\<And>u. (u \<in> fst ` set (stack s)) = (visited s u = InStack)"
    and b: "\<And>u. (u \<in> set (blockOrder s)) = (visited s u = Visited)"
    and d: "distinct (map fst (stack s))" "distinct (blockOrder s)"
    using assms(1) by (simp_all add: dfs_marks_def)
  have tn: "t \<notin> fst ` set (stack s)" using a [of t] pushed(4) by simp
  show ?thesis
    unfolding dfs_marks_def pushed(5) using top a b d tn pushed(1,4) by auto
next
  case (crossed v i rest t)
  with assms(1) show ?thesis by (auto simp: dfs_marks_def)
next
  case (looped v i rest t)
  with assms(1) show ?thesis by (auto simp: dfs_marks_def)
qed

subsection \<open>Keys of the maps\<close>

text \<open>The map has distinct keys, and the keys in \<open>S\<close> are among them.\<close>

definition has_keys :: "'k set \<Rightarrow> ('k \<times> 'v) list \<Rightarrow> bool" where
  "has_keys S m = (distinct (umap_keys m) \<and> S \<subseteq> set (umap_keys m))"

lemma has_keys_Nil [simp]: "has_keys {} []"
  by (simp add: has_keys_def umap_keys_def)

lemma has_keys_mono: "has_keys S m \<Longrightarrow> T \<subseteq> S \<Longrightarrow> has_keys T m"
  by (auto simp: has_keys_def)

lemma has_keys_put [simp]: "has_keys S m \<Longrightarrow> has_keys S (umap_put k v m)"
  by (auto simp: has_keys_def umap_put_def umap_keys_def distinct_update dom_update)

lemma has_keys_put_new: "has_keys S m \<Longrightarrow> has_keys (insert k S) (umap_put k v m)"
  by (auto simp: has_keys_def umap_put_def umap_keys_def distinct_update dom_update)

lemma has_keys_touch [simp]: "has_keys S m \<Longrightarrow> has_keys S (umap_touch d k m)"
  by (auto simp: has_keys_def umap_touch_def umap_keys_def map_of_eq_None_iff split: option.splits)

lemma has_keys_touch_new: "has_keys S m \<Longrightarrow> has_keys (insert k S) (umap_touch d k m)"
  using keys_touch [of d k m]
  by (auto simp: has_keys_def umap_touch_def umap_keys_def map_of_eq_None_iff split: option.splits)

lemma has_keys_modify [simp]: "has_keys S g \<Longrightarrow> has_keys S (grid_modify k f g)"
  by (simp add: grid_modify_def)

lemma has_keys_push [simp]: "has_keys S g \<Longrightarrow> has_keys S (push_dag_edge v t g)"
  by (simp add: push_dag_edge_def Let_def)

lemma has_keys_fold:
  assumes "\<And>x m. has_keys S m \<Longrightarrow> has_keys S (f x m)" and "has_keys S m"
  shows "has_keys S (fold f xs m)"
  using assms(2) by (induction xs arbitrary: m) (simp_all add: assms(1))

subsection \<open>The keys of the grid through the stages\<close>

lemma has_keys_dfsStep: "has_keys S (dfs_grid s) \<Longrightarrow> has_keys S (dfs_grid (dfsStep s))"
  by (simp add: dfsStep_def Let_def split: list.splits prod.splits State.splits)

lemma has_keys_dfsLoop: "has_keys S (dfs_grid s) \<Longrightarrow> has_keys S (dfs_grid (dfsLoop s))"
  using dfsLoop_rule [where P = "\<lambda>s. has_keys S (dfs_grid s)" and s = s]
  by (simp add: has_keys_dfsStep)

lemma has_keys_dfsFragment: "has_keys S (dfs_grid s) \<Longrightarrow> has_keys S (dfs_grid (dfsFragment k s))"
  by (simp add: dfsFragment_def has_keys_dfsLoop)

lemma has_keys_dfsRemaining: "has_keys S (dfs_grid s) \<Longrightarrow> has_keys S (dfs_grid (fold dfsRemaining ks s))"
  by (induction ks arbitrary: s) (simp_all add: dfsRemaining_def has_keys_dfsFragment)

lemma has_keys_topoSort:
  "has_keys S (grid_blocks st) \<Longrightarrow> has_keys S (grid_blocks (fst (topoSort hord st entry)))"
  by (simp add: topoSort_def topoSort_dfs_def Let_def has_keys_dfsRemaining has_keys_dfsFragment)

lemma has_keys_put_all:
  "has_keys S g \<Longrightarrow> has_keys (S \<union> set ks) (fold (\<lambda>k g. umap_put k (v k) g) ks g)"
proof (induction ks arbitrary: S g)
  case Nil
  then show ?case by simp
next
  case (Cons k ks)
  from Cons.IH [OF has_keys_put_new [OF Cons.prems, of k]] show ?case by simp
qed

lemma has_keys_initGridBlocks:
  assumes "enumerates hord"
  shows "has_keys (set (umap_keys bs)) (grid_blocks (initGridBlocks hord (emptyLayoutState bs)))"
  using has_keys_put_all [OF has_keys_Nil, of "hord (umap_keys bs)" "\<lambda>k. default_GridBlock\<lparr>block_id := k\<rparr>"]
  by (simp add: initGridBlocks_def emptyLayoutState_def enumerates_set [OF assms])

lemma has_keys_assignRows: "has_keys S (grid_blocks st) \<Longrightarrow> has_keys S (grid_blocks (assignRows st order))"
  by (simp add: assignRows_def)
    (intro has_keys_fold, simp_all add: assignRowsBlock_def raiseRow_def Let_def has_keys_fold)

lemma has_keys_selectTreeEdge: "has_keys S g \<Longrightarrow> has_keys S (selectTreeEdge v t g)"
  by (simp add: selectTreeEdge_def Let_def)

lemma has_keys_selectTree: "has_keys S (grid_blocks st) \<Longrightarrow> has_keys S (grid_blocks (selectTree hord st))"
  by (simp add: selectTree_def selectTreeBlock_def has_keys_fold has_keys_selectTreeEdge)

lemma has_keys_mergeScan:
  "has_keys S (snd (snd acc)) \<Longrightarrow> has_keys S (snd (snd (fold mergeScan es acc)))"
  by (induction es arbitrary: acc) (auto simp: mergeScan_def Let_def split: prod.splits)

lemma has_keys_mergeCount:
  "has_keys S g \<Longrightarrow> has_keys S (snd (snd (mergeCount m es a b g)))"
  by (induction es arbitrary: a b g) (simp_all add: Let_def)

lemma has_keys_findMergePointsBlock: "has_keys S g \<Longrightarrow> has_keys S (findMergePointsBlock k g)"
  using has_keys_mergeScan [of S "(None, 0, g)" "tree_edge (umap_at default_GridBlock g k)"]
  apply (simp add: findMergePointsBlock_def Let_def split: prod.splits option.splits)
  apply (intro allI impI conjI)
   apply (metis has_keys_mergeCount snd_conv has_keys_modify)+
  done

lemma has_keys_findMergePoints:
  "has_keys S (grid_blocks st) \<Longrightarrow> has_keys S (grid_blocks (findMergePoints hord st))"
  by (simp add: findMergePoints_def has_keys_fold has_keys_findMergePointsBlock)

lemma has_keys_placeChild:
  "has_keys S (fst acc) \<Longrightarrow> has_keys S (fst (placeChild tight b c acc))"
  by (cases acc) (simp add: placeChild_def Let_def split: prod.splits)

lemma has_keys_placeChildren:
  "has_keys S (fst acc) \<Longrightarrow> has_keys S (fst (fold (placeChild tight b) cs acc))"
  by (induction cs arbitrary: acc) (simp_all add: has_keys_placeChild)

lemma has_keys_placeBlock: "has_keys S g \<Longrightarrow> has_keys S (placeBlock L b g)"
  apply (simp add: placeBlock_def Let_def case_prod_beta)
  apply (intro conjI impI has_keys_fold)
   apply (simp_all add: has_keys_placeChildren)
  done

lemma has_keys_placeRoots:
  "has_keys S (fst acc) \<Longrightarrow> has_keys S (fst (fold placeRoot ks acc))"
  by (induction ks arbitrary: acc) (auto simp: placeRoot_def Let_def split: prod.splits)

lemma has_keys_absolutePosition:
  "has_keys S g \<Longrightarrow> absolutePosition v g = Inr g' \<Longrightarrow> has_keys S g'"
  by (auto simp: absolutePosition_def Let_def split: if_splits intro!: has_keys_fold)

lemma has_keys_absolutePositions:
  "has_keys S g \<Longrightarrow> foldE absolutePosition vs g = Inr g' \<Longrightarrow> has_keys S g'"
proof (induction vs arbitrary: g)
  case Nil
  then show ?case by simp
next
  case (Cons v vs)
  from Cons.prems(2) obtain g1 where a: "absolutePosition v g = Inr g1"
    and b: "foldE absolutePosition vs g1 = Inr g'"
    by (auto split: sum.splits)
  from Cons.IH [OF has_keys_absolutePosition [OF Cons.prems(1) a] b] show ?case .
qed

lemma has_keys_computeAllBlockPlacement:
  assumes "has_keys S (grid_blocks st)" "computeAllBlockPlacement L hord order st = Inr st'"
  shows "has_keys S (grid_blocks st')"
proof -
  let ?g4 = "fold (placeBlock L) order (grid_blocks (findMergePoints hord (selectTree hord (assignRows st order))))"
  have "has_keys S ?g4"
    by (intro has_keys_fold has_keys_placeBlock has_keys_findMergePoints has_keys_selectTree
        has_keys_assignRows assms(1))
  then have "has_keys S (fst (fold placeRoot (hord (umap_keys ?g4)) (?g4, 0)))"
    by (intro has_keys_placeRoots) simp
  moreover obtain g6 where
    "foldE absolutePosition (rev order) (fst (fold placeRoot (hord (umap_keys ?g4)) (?g4, 0))) = Inr g6"
    and "grid_blocks st' = g6"
    using assms(2) by (auto simp: computeAllBlockPlacement_def Let_def split: sum.splits)
  ultimately show ?thesis
    using has_keys_absolutePositions by blast
qed

subsection \<open>What the DFS visits\<close>

lemma visited_dfsStep: "visited s v \<noteq> NotVisited \<Longrightarrow> visited (dfsStep s) v \<noteq> NotVisited"
  by (auto simp: dfsStep_def Let_def split: list.splits prod.splits State.splits)

lemma keys_dfsStep: "set (umap_keys (dfs_blocks s)) \<subseteq> set (umap_keys (dfs_blocks (dfsStep s)))"
  by (auto simp: dfsStep_def Let_def keys_touch split: list.splits prod.splits State.splits)

lemma umap_at_dfsStep:
  "umap_at default_GraphBlock (dfs_blocks (dfsStep s)) = umap_at default_GraphBlock (dfs_blocks s)"
  by (simp add: dfsStep_def Let_def split: list.splits prod.splits State.splits)

lemma all_targets_dfsStep: "all_targets (dfs_blocks (dfsStep s)) = all_targets (dfs_blocks s)"
  by (simp add: dfsStep_def Let_def split: list.splits prod.splits State.splits)

text \<open>
  The blocks that are not in \<open>K0\<close> have been visited; a finished block is a key of the
  map and all its edges have been looked at; so have the edges of a block on the stack
  below its edge index.
\<close>

definition dfs_closed :: "ut64 set \<Rightarrow> DfsState \<Rightarrow> bool" where
  "dfs_closed K0 s =
     ((\<forall>k \<in> set (umap_keys (dfs_blocks s)). k \<in> K0 \<or> visited s k \<noteq> NotVisited) \<and>
      (\<forall>v. visited s v = Visited \<longrightarrow>
           v \<in> set (umap_keys (dfs_blocks s)) \<and>
           (\<forall>e \<in> set (edges_of (dfs_blocks s) v). visited s (target e) \<noteq> NotVisited)) \<and>
      (\<forall>v i j. (v, i) \<in> set (stack s) \<longrightarrow> j < i \<longrightarrow> j < length (edges_of (dfs_blocks s) v) \<longrightarrow>
           visited s (target (edges_of (dfs_blocks s) v ! j)) \<noteq> NotVisited))"

lemma dfs_closed_step:
  assumes "dfs_closed K0 s" "dfs_marks s" "stack s \<noteq> []"
  shows "dfs_closed K0 (dfsStep s)"
proof -
  have k: "\<And>k. k \<in> set (umap_keys (dfs_blocks s)) \<Longrightarrow> k \<in> K0 \<or> visited s k \<noteq> NotVisited"
    and f: "\<And>v. visited s v = Visited \<Longrightarrow> v \<in> set (umap_keys (dfs_blocks s))"
    and fe: "\<And>v e. visited s v = Visited \<Longrightarrow> e \<in> set (edges_of (dfs_blocks s) v)
                \<Longrightarrow> visited s (target e) \<noteq> NotVisited"
    and st: "\<And>v i j. (v, i) \<in> set (stack s) \<Longrightarrow> j < i \<Longrightarrow> j < length (edges_of (dfs_blocks s) v)
                \<Longrightarrow> visited s (target (edges_of (dfs_blocks s) v ! j)) \<noteq> NotVisited"
    using assms(1) unfolding dfs_closed_def by blast+
  from assms(3) show ?thesis
  proof (cases rule: dfsStep_cases)
    case (popped v i rest)
    note top = dfs_marks_top [OF assms(2) popped(1)]
    have all: "visited s (target e) \<noteq> NotVisited" if "e \<in> set (edges_of (dfs_blocks s) v)" for e
    proof -
      from that obtain j where j: "j < length (edges_of (dfs_blocks s) v)"
        and e: "e = edges_of (dfs_blocks s) v ! j"
        by (auto simp: in_set_conv_nth)
      with popped(2) have "j < i" by simp
      with st [of v i j] popped(1) j e show ?thesis by simp
    qed
    have st': "visited s (target (edges_of (dfs_blocks s) u ! j)) \<noteq> NotVisited"
      if "(u, n) \<in> set rest" "j < n" "j < length (edges_of (dfs_blocks s) u)" for u n j
      using that popped(1) st [of u n j] by simp
    show ?thesis
      unfolding dfs_closed_def popped(3)
      using k f fe st' all top(1)
      by (auto simp: keys_touch)
  next
    case (pushed v i rest t)
    note top = dfs_marks_top [OF assms(2) pushed(1)]
    have st': "visited s (target (edges_of (dfs_blocks s) u ! j)) \<noteq> NotVisited"
      if "(u, n) \<in> set rest" "j < n" "j < length (edges_of (dfs_blocks s) u)" for u n j
      using that pushed(1) st [of u n j] by simp
    have "\<And>j. j < Suc i \<Longrightarrow> j < length (edges_of (dfs_blocks s) v)
        \<Longrightarrow> ((visited s)(t := InStack)) (target (edges_of (dfs_blocks s) v ! j)) \<noteq> NotVisited"
      using st [of v i] pushed(1,3) by (auto simp: less_Suc_eq)
    then show ?thesis
      unfolding dfs_closed_def pushed(5)
      using k f fe st' pushed(4) top(1)
      by (auto simp: keys_touch)
  next
    case (crossed v i rest t)
    note top = dfs_marks_top [OF assms(2) crossed(1)]
    have st': "visited s (target (edges_of (dfs_blocks s) u ! j)) \<noteq> NotVisited"
      if "(u, n) \<in> set rest" "j < n" "j < length (edges_of (dfs_blocks s) u)" for u n j
      using that crossed(1) st [of u n j] by simp
    have "\<And>j. j < Suc i \<Longrightarrow> j < length (edges_of (dfs_blocks s) v)
        \<Longrightarrow> visited s (target (edges_of (dfs_blocks s) v ! j)) \<noteq> NotVisited"
      using st [of v i] crossed(1,3,4) by (auto simp: less_Suc_eq)
    then show ?thesis
      unfolding dfs_closed_def crossed(5)
      using k f fe st' top(1)
      by (auto simp: keys_touch)
  next
    case (looped v i rest t)
    note top = dfs_marks_top [OF assms(2) looped(1)]
    have st': "visited s (target (edges_of (dfs_blocks s) u ! j)) \<noteq> NotVisited"
      if "(u, n) \<in> set rest" "j < n" "j < length (edges_of (dfs_blocks s) u)" for u n j
      using that looped(1) st [of u n j] by simp
    have "\<And>j. j < Suc i \<Longrightarrow> j < length (edges_of (dfs_blocks s) v)
        \<Longrightarrow> visited s (target (edges_of (dfs_blocks s) v ! j)) \<noteq> NotVisited"
      using st [of v i] looped(1,3,4) by (auto simp: less_Suc_eq)
    then show ?thesis
      unfolding dfs_closed_def looped(5)
      using k f fe st' top(1)
      by (auto simp: keys_touch)
  qed
qed

text \<open>Everything the DFS touches lies in \<open>K\<close>.\<close>

definition dfs_within :: "ut64 set \<Rightarrow> DfsState \<Rightarrow> bool" where
  "dfs_within K s =
     ((\<forall>v. visited s v \<noteq> NotVisited \<longrightarrow> v \<in> K) \<and> set (umap_keys (dfs_blocks s)) \<subseteq> K \<and>
      all_targets (dfs_blocks s) \<subseteq> K)"

lemma edges_of_target: "i < length (edges_of bs v) \<Longrightarrow> target (edges_of bs v ! i) \<in> all_targets bs"
  unfolding edges_of_def by (rule edge_target_in_all_targets)

lemma dfs_within_step:
  assumes "dfs_within K s" "dfs_marks s" "stack s \<noteq> []"
  shows "dfs_within K (dfsStep s)"
proof -
  have v: "\<And>v. visited s v \<noteq> NotVisited \<Longrightarrow> v \<in> K"
    and k: "set (umap_keys (dfs_blocks s)) \<subseteq> K" and t: "all_targets (dfs_blocks s) \<subseteq> K"
    using assms(1) unfolding dfs_within_def by blast+
  from assms(3) show ?thesis
  proof (cases rule: dfsStep_cases)
    case (popped v i rest)
    note top = dfs_marks_top [OF assms(2) popped(1)]
    show ?thesis unfolding dfs_within_def popped(3) using v k t top(1) v [of v]
      by (auto simp: keys_touch)
  next
    case (pushed v i rest t')
    note top = dfs_marks_top [OF assms(2) pushed(1)]
    have "t' \<in> K" using edges_of_target [OF pushed(2)] pushed(3) t by auto
    then show ?thesis unfolding dfs_within_def pushed(5) using v k t top(1) v [of v]
      by (auto simp: keys_touch)
  next
    case (crossed v i rest t')
    note top = dfs_marks_top [OF assms(2) crossed(1)]
    show ?thesis unfolding dfs_within_def crossed(5) using v k t top(1) v [of v]
      by (auto simp: keys_touch)
  next
    case (looped v i rest t')
    note top = dfs_marks_top [OF assms(2) looped(1)]
    show ?thesis unfolding dfs_within_def looped(5) using v k t top(1) v [of v]
      by (auto simp: keys_touch)
  qed
qed

subsection \<open>The fragments of the DFS\<close>

text \<open>The state between two fragments: the stack is empty.\<close>

definition dfs_inv :: "ut64 set \<Rightarrow> ut64 set \<Rightarrow> DfsState \<Rightarrow> bool" where
  "dfs_inv K0 K s = (dfs_marks s \<and> dfs_closed K0 s \<and> dfs_within K s)"

text \<open>\<open>s'\<close> has visited what \<open>s\<close> has, its map has the keys of \<open>s\<close> and the same blocks.\<close>

definition dfs_extends :: "DfsState \<Rightarrow> DfsState \<Rightarrow> bool" where
  "dfs_extends s s' =
     ((\<forall>v. visited s v \<noteq> NotVisited \<longrightarrow> visited s' v \<noteq> NotVisited) \<and>
      set (umap_keys (dfs_blocks s)) \<subseteq> set (umap_keys (dfs_blocks s')) \<and>
      umap_at default_GraphBlock (dfs_blocks s') = umap_at default_GraphBlock (dfs_blocks s))"

lemma dfs_extends_refl [simp]: "dfs_extends s s"
  by (simp add: dfs_extends_def)

lemma dfs_extends_trans: "dfs_extends a b \<Longrightarrow> dfs_extends b c \<Longrightarrow> dfs_extends a c"
  unfolding dfs_extends_def by (simp add: subset_iff)

lemma dfs_extends_step: "dfs_extends s (dfsStep s)"
  using keys_dfsStep [of s] by (simp add: dfs_extends_def visited_dfsStep umap_at_dfsStep)

lemma dfsLoop_inv:
  assumes "dfs_inv K0 K s"
  shows "dfs_inv K0 K (dfsLoop s)" and "stack (dfsLoop s) = []" and "dfs_extends s (dfsLoop s)"
proof -
  let ?P = "\<lambda>s'. dfs_inv K0 K s' \<and> dfs_extends s s'"
  have "?P (dfsLoop s) \<and> stack (dfsLoop s) = []"
  proof (rule dfsLoop_rule)
    show "?P s" using assms by simp
  next
    fix s' assume p: "?P s'" and ne: "stack s' \<noteq> []"
    then have "dfs_inv K0 K (dfsStep s')"
      unfolding dfs_inv_def by (simp add: dfs_marks_step dfs_closed_step dfs_within_step)
    moreover have "dfs_extends s (dfsStep s')"
      using p dfs_extends_step [of s'] by (blast intro: dfs_extends_trans)
    ultimately show "?P (dfsStep s')" by simp
  qed
  then show "dfs_inv K0 K (dfsLoop s)" and "stack (dfsLoop s) = []" and "dfs_extends s (dfsLoop s)"
    by simp_all
qed

lemma dfs_marks_idle:
  assumes "dfs_marks s" "stack s = []"
  shows "visited s v \<noteq> InStack" and "(v \<in> set (blockOrder s)) = (visited s v \<noteq> NotVisited)"
proof -
  have a: "(v \<in> fst ` set (stack s)) = (visited s v = InStack)"
    and b: "(v \<in> set (blockOrder s)) = (visited s v = Visited)"
    using assms(1) by (simp_all add: dfs_marks_def)
  show i: "visited s v \<noteq> InStack" using a assms(2) by simp
  show "(v \<in> set (blockOrder s)) = (visited s v \<noteq> NotVisited)"
    using b i by (cases "visited s v") simp_all
qed

lemma dfsFragment_inv:
  assumes "dfs_inv K0 K s" "stack s = []" "visited s first = NotVisited" "first \<in> K"
  shows "dfs_inv K0 K (dfsFragment first s)" and "stack (dfsFragment first s) = []"
    and "dfs_extends s (dfsFragment first s)" and "visited (dfsFragment first s) first \<noteq> NotVisited"
proof -
  let ?s = "s\<lparr>visited := (visited s)(first := InStack), stack := (first, 0) # stack s\<rparr>"
  have m: "dfs_marks s" and c: "dfs_closed K0 s" and w: "dfs_within K s"
    using assms(1) by (simp_all add: dfs_inv_def)
  have ni: "\<And>v. visited s v \<noteq> InStack" using dfs_marks_idle [OF m assms(2)] by simp
  have "dfs_marks ?s"
    using m assms(2,3) ni unfolding dfs_marks_def by auto
  moreover have "dfs_closed K0 ?s"
    using c assms(2,3) unfolding dfs_closed_def by auto
  moreover have "dfs_within K ?s"
    using w assms(4) unfolding dfs_within_def by auto
  ultimately have i: "dfs_inv K0 K ?s" by (simp add: dfs_inv_def)
  have e: "dfs_extends s ?s" by (simp add: dfs_extends_def)
  note l = dfsLoop_inv [OF i]
  show "dfs_inv K0 K (dfsFragment first s)" using l(1) by (simp add: dfsFragment_def)
  show "stack (dfsFragment first s) = []" using l(2) by (simp add: dfsFragment_def)
  show x: "dfs_extends s (dfsFragment first s)"
    using dfs_extends_trans [OF e l(3)] by (simp add: dfsFragment_def)
  have "visited ?s first \<noteq> NotVisited" by simp
  then show "visited (dfsFragment first s) first \<noteq> NotVisited"
    using l(3) unfolding dfs_extends_def dfsFragment_def by blast
qed

lemma dfsRemaining_inv:
  assumes "dfs_inv K0 K s" "stack s = []" "set ks \<subseteq> K"
  shows "dfs_inv K0 K (fold dfsRemaining ks s)" and "stack (fold dfsRemaining ks s) = []"
    and "dfs_extends s (fold dfsRemaining ks s)"
    and "\<forall>k \<in> set ks. visited (fold dfsRemaining ks s) k \<noteq> NotVisited"
proof -
  have "dfs_inv K0 K (fold dfsRemaining ks s) \<and> stack (fold dfsRemaining ks s) = [] \<and>
        dfs_extends s (fold dfsRemaining ks s) \<and>
        (\<forall>k \<in> set ks. visited (fold dfsRemaining ks s) k \<noteq> NotVisited)"
    using assms
  proof (induction ks arbitrary: s)
    case Nil
    then show ?case by simp
  next
    case (Cons k ks)
    let ?s1 = "dfsRemaining k s"
    have 1: "dfs_inv K0 K ?s1 \<and> stack ?s1 = [] \<and> dfs_extends s ?s1 \<and> visited ?s1 k \<noteq> NotVisited"
    proof (cases "visited s k = NotVisited")
      case True
      with dfsFragment_inv [OF Cons.prems(1,2) True] Cons.prems(3) show ?thesis
        by (simp add: dfsRemaining_def)
    next
      case False
      with Cons.prems show ?thesis by (simp add: dfsRemaining_def)
    qed
    from Cons.IH [of ?s1] 1 Cons.prems(3)
    have 2: "dfs_inv K0 K (fold dfsRemaining ks ?s1) \<and> stack (fold dfsRemaining ks ?s1) = [] \<and>
        dfs_extends ?s1 (fold dfsRemaining ks ?s1) \<and>
        (\<forall>j \<in> set ks. visited (fold dfsRemaining ks ?s1) j \<noteq> NotVisited)" by simp
    have "dfs_extends s (fold dfsRemaining ks ?s1)"
      using 1 2 by (blast intro: dfs_extends_trans)
    moreover have "visited (fold dfsRemaining ks ?s1) k \<noteq> NotVisited"
      using 1 2 unfolding dfs_extends_def by blast
    ultimately show ?case using 2 by simp
  qed
  then show "dfs_inv K0 K (fold dfsRemaining ks s)" and "stack (fold dfsRemaining ks s) = []"
    and "dfs_extends s (fold dfsRemaining ks s)"
    and "\<forall>k \<in> set ks. visited (fold dfsRemaining ks s) k \<noteq> NotVisited"
    by simp_all
qed

subsection \<open>The result of topoSort\<close>

lemma topoSort_dfs_result:
  assumes "enumerates hord"
    and "insert entry (set (umap_keys (blocks state)) \<union> all_targets (blocks state)) \<subseteq> K"
  defines "s \<equiv> topoSort_dfs hord state entry"
  shows "dfs_marks s" and "stack s = []"
    and "set (blockOrder s) = set (umap_keys (dfs_blocks s))"
    and "set (blockOrder s) \<subseteq> K"
    and "insert entry (set (umap_keys (blocks state))) \<subseteq> set (blockOrder s)"
    and "umap_at default_GraphBlock (dfs_blocks s) = umap_at default_GraphBlock (blocks state)"
    and "\<And>v e. e \<in> set (edges_of (dfs_blocks s) v) \<Longrightarrow> target e \<in> set (umap_keys (dfs_blocks s))"
proof -
  let ?K0 = "set (umap_keys (blocks state))"
  let ?s0 = "\<lparr>dfs_blocks = blocks state, dfs_grid = grid_blocks state,
              visited = (\<lambda>k. NotVisited), stack = [], blockOrder = []\<rparr>"
  let ?s1 = "dfsFragment entry ?s0"
  have i0: "dfs_inv ?K0 K ?s0"
    using assms(2) by (simp add: dfs_inv_def dfs_marks_def dfs_closed_def dfs_within_def)
  note f = dfsFragment_inv [OF i0, of entry]
  have i1: "dfs_inv ?K0 K ?s1" and e1: "stack ?s1 = []" and x1: "dfs_extends ?s0 ?s1"
    and v1: "visited ?s1 entry \<noteq> NotVisited"
    using f assms(2) by simp_all
  let ?ks = "hord (umap_keys (dfs_blocks ?s1))"
  have ks: "set ?ks = set (umap_keys (dfs_blocks ?s1))" using assms(1) by (rule enumerates_set)
  then have "set ?ks \<subseteq> K" using i1 by (simp add: dfs_inv_def dfs_within_def)
  note r = dfsRemaining_inv [OF i1 e1 this]
  have s: "s = fold dfsRemaining ?ks ?s1" by (simp add: s_def topoSort_dfs_def Let_def)
  have m: "dfs_marks s" and c: "dfs_closed ?K0 s" and w: "dfs_within K s"
    using r(1) by (simp_all add: s dfs_inv_def)
  show "dfs_marks s" by (rule m)
  show e: "stack s = []" using r(2) by (simp add: s)
  have x: "dfs_extends ?s0 s" using dfs_extends_trans [OF x1 r(3)] by (simp add: s)
  have xs: "dfs_extends ?s1 s" using r(3) by (simp add: s)
  note idle = dfs_marks_idle [OF m e]
  have k0: "visited s k \<noteq> NotVisited" if "k \<in> ?K0" for k
  proof -
    from that x1 have "k \<in> set ?ks" unfolding ks dfs_extends_def by auto
    with r(4) show ?thesis by (simp add: s)
  qed
  have allk: "visited s k \<noteq> NotVisited" if "k \<in> set (umap_keys (dfs_blocks s))" for k
    using c that k0 unfolding dfs_closed_def by blast
  have vk: "v \<in> set (umap_keys (dfs_blocks s))" if "visited s v \<noteq> NotVisited" for v
  proof -
    from that idle(1) [of v] have "visited s v = Visited" by (cases "visited s v") simp_all
    with c show ?thesis unfolding dfs_closed_def by blast
  qed
  show o: "set (blockOrder s) = set (umap_keys (dfs_blocks s))"
    using idle(2) allk vk by blast
  show "set (blockOrder s) \<subseteq> K"
    using w idle(2) unfolding dfs_within_def by blast
  have "visited s entry \<noteq> NotVisited" using v1 xs unfolding dfs_extends_def by blast
  then show "insert entry ?K0 \<subseteq> set (blockOrder s)"
    using idle(2) k0 by auto
  show "umap_at default_GraphBlock (dfs_blocks s) = umap_at default_GraphBlock (blocks state)"
    using x by (simp add: dfs_extends_def)
  show "target e \<in> set (umap_keys (dfs_blocks s))" if "e \<in> set (edges_of (dfs_blocks s) v)" for v e
  proof -
    from that have "edges_of (dfs_blocks s) v \<noteq> []" by auto
    then have "v \<in> set (umap_keys (dfs_blocks s))" by (rule edges_of_keys)
    then have "visited s v = Visited" using allk [of v] idle(1) [of v] by (cases "visited s v") simp_all
    with c that have "visited s (target e) \<noteq> NotVisited" unfolding dfs_closed_def by blast
    then show ?thesis by (rule vk)
  qed
qed

subsection \<open>The DAG edges that the DFS keeps\<close>

text \<open>
  \<open>targets_later g vs\<close>: the DAG edges of every block of the list go to blocks further
  back in the list. \<open>stack_ok g vis up stk\<close>: the DAG edges of a block on the stack go
  to finished blocks or to blocks above it on the stack.
\<close>

fun targets_later :: "(ut64 \<Rightarrow> GridBlock) \<Rightarrow> ut64 list \<Rightarrow> bool" where
  "targets_later g [] = True"
| "targets_later g (v # vs) = (set (dag_edge (g v)) \<subseteq> set vs \<and> targets_later g vs)"

fun stack_ok :: "(ut64 \<Rightarrow> GridBlock) \<Rightarrow> (ut64 \<Rightarrow> State) \<Rightarrow> ut64 set \<Rightarrow> (ut64 \<times> nat) list \<Rightarrow> bool" where
  "stack_ok g vis up [] = True"
| "stack_ok g vis up ((v, i) # rest) =
     ((\<forall>t \<in> set (dag_edge (g v)). vis t = Visited \<or> t \<in> up) \<and>
      stack_ok g vis (insert v up) rest)"

lemma targets_later_cong:
  "(\<And>u. u \<in> set vs \<Longrightarrow> dag_edge (g' u) = dag_edge (g u)) \<Longrightarrow>
   targets_later g' vs = targets_later g vs"
  by (induction vs) auto

lemma stack_ok_cong:
  assumes "stack_ok g vis A rest"
    and "\<And>x. vis x = Visited \<or> x \<in> A \<Longrightarrow> vis' x = Visited \<or> x \<in> B"
    and "\<And>u. u \<in> fst ` set rest \<Longrightarrow> dag_edge (g' u) = dag_edge (g u)"
  shows "stack_ok g' vis' B rest"
  using assms
proof (induction rest arbitrary: A B)
  case Nil
  then show ?case by simp
next
  case (Cons p rest)
  obtain v i where p: "p = (v, i)" by (cases p)
  have 1: "\<forall>t \<in> set (dag_edge (g' v)). vis' t = Visited \<or> t \<in> B"
    using Cons.prems unfolding p by auto
  have "stack_ok g vis (insert v A) rest" using Cons.prems(1) unfolding p by simp
  then have "stack_ok g' vis' (insert v B) rest"
  proof (rule Cons.IH)
    fix x assume "vis x = Visited \<or> x \<in> insert v A"
    then show "vis' x = Visited \<or> x \<in> insert v B" using Cons.prems(2) [of x] by auto
  next
    fix u assume "u \<in> fst ` set rest"
    then show "dag_edge (g' u) = dag_edge (g u)" using Cons.prems(3) [of u] by auto
  qed
  with 1 show ?case unfolding p by simp
qed

definition dfs_dag :: "DfsState \<Rightarrow> bool" where
  "dfs_dag s =
     ((\<forall>v. visited s v = NotVisited \<longrightarrow> dag_edge (gb (dfs_grid s) v) = []) \<and>
      targets_later (gb (dfs_grid s)) (rev (blockOrder s)) \<and>
      stack_ok (gb (dfs_grid s)) (visited s) {} (stack s))"

lemma dfs_dag_step:
  assumes "dfs_dag s" "dfs_marks s" "stack s \<noteq> []"
  shows "dfs_dag (dfsStep s)"
proof -
  let ?g = "gb (dfs_grid s)"
  have n: "\<And>v. visited s v = NotVisited \<Longrightarrow> dag_edge (?g v) = []"
    and o: "targets_later ?g (rev (blockOrder s))"
    and k: "stack_ok ?g (visited s) {} (stack s)"
    using assms(1) unfolding dfs_dag_def by blast+
  have ord: "\<And>u. (u \<in> set (blockOrder s)) = (visited s u = Visited)"
    using assms(2) by (simp add: dfs_marks_def)
  from assms(3) show ?thesis
  proof (cases rule: dfsStep_cases)
    case (popped v i rest)
    note top = dfs_marks_top [OF assms(2) popped(1)]
    have kv: "\<forall>t \<in> set (dag_edge (?g v)). visited s t = Visited"
      and kr: "stack_ok ?g (visited s) {v} rest"
      using k unfolding popped(1) by simp_all
    have 1: "set (dag_edge (?g v)) \<subseteq> set (blockOrder s)" using kv ord by auto
    have 2: "stack_ok ?g ((visited s)(v := Visited)) {} rest"
      using kr by (rule stack_ok_cong) auto
    show ?thesis
      unfolding dfs_dag_def popped(3) using n o 1 2 top(1) by auto
  next
    case (pushed v i rest t)
    note top = dfs_marks_top [OF assms(2) pushed(1)]
    let ?g' = "gb (push_dag_edge v t (dfs_grid s))"
    have tv: "t \<noteq> v" using pushed(4) top(1) by auto
    have g': "\<And>u. u \<noteq> v \<Longrightarrow> ?g' u = ?g u" and gv: "dag_edge (?g' v) = dag_edge (?g v) @ [t]"
      by simp_all
    have kv: "\<forall>x \<in> set (dag_edge (?g v)). visited s x = Visited"
      and kr: "stack_ok ?g (visited s) {v} rest"
      using k unfolding pushed(1) by simp_all
    have 1: "targets_later ?g' (rev (blockOrder s)) = targets_later ?g (rev (blockOrder s))"
      using top(3) g' by (intro targets_later_cong) auto
    have 2: "stack_ok ?g' ((visited s)(t := InStack)) {t, v} rest"
      using kr
    proof (rule stack_ok_cong)
      fix x assume "visited s x = Visited \<or> x \<in> {v}"
      then show "((visited s)(t := InStack)) x = Visited \<or> x \<in> {t, v}" using pushed(4) by auto
    next
      fix u assume "u \<in> fst ` set rest"
      then have "u \<noteq> v" using top(2) by auto
      then show "dag_edge (?g' u) = dag_edge (?g u)" using g' by simp
    qed
    have 3: "dag_edge (?g' t) = []" using n [OF pushed(4)] g' [OF tv] by simp
    have 4: "\<forall>x \<in> set (dag_edge (?g' v)). ((visited s)(t := InStack)) x = Visited \<or> x \<in> {t}"
      using kv pushed(4) unfolding gv by auto
    have 5: "\<And>u. ((visited s)(t := InStack)) u = NotVisited \<Longrightarrow> dag_edge (?g' u) = []"
      using n g' top(1) by (auto split: if_splits)
    show ?thesis
      unfolding dfs_dag_def pushed(5) using 1 2 3 4 5 o
      by (simp add: insert_commute)
  next
    case (crossed v i rest t)
    note top = dfs_marks_top [OF assms(2) crossed(1)]
    let ?g' = "gb (push_dag_edge v t (dfs_grid s))"
    have g': "\<And>u. u \<noteq> v \<Longrightarrow> ?g' u = ?g u" and gv: "dag_edge (?g' v) = dag_edge (?g v) @ [t]"
      by simp_all
    have kv: "\<forall>x \<in> set (dag_edge (?g v)). visited s x = Visited"
      and kr: "stack_ok ?g (visited s) {v} rest"
      using k unfolding crossed(1) by simp_all
    have 1: "targets_later ?g' (rev (blockOrder s)) = targets_later ?g (rev (blockOrder s))"
      using top(3) g' by (intro targets_later_cong) auto
    have 2: "stack_ok ?g' (visited s) {v} rest"
      using kr
    proof (rule stack_ok_cong)
      fix u assume "u \<in> fst ` set rest"
      then have "u \<noteq> v" using top(2) by auto
      then show "dag_edge (?g' u) = dag_edge (?g u)" using g' by simp
    qed simp
    have 4: "\<forall>x \<in> set (dag_edge (?g' v)). visited s x = Visited"
      using kv crossed(4) unfolding gv by auto
    have 5: "\<And>u. visited s u = NotVisited \<Longrightarrow> dag_edge (?g' u) = []"
      using n g' top(1) by (metis State.distinct(1))
    show ?thesis
      unfolding dfs_dag_def crossed(5) using 1 2 4 5 o by simp
  next
    case (looped v i rest t)
    have "stack_ok ?g (visited s) {} ((v, Suc i) # rest)"
      using k unfolding looped(1) by simp
    then show ?thesis
      unfolding dfs_dag_def looped(5) using n o by simp
  qed
qed

lemma dfsLoop_dag:
  assumes "dfs_dag s" "dfs_marks s"
  shows "dfs_dag (dfsLoop s)" and "dfs_marks (dfsLoop s)" and "stack (dfsLoop s) = []"
proof -
  let ?P = "\<lambda>s'. dfs_dag s' \<and> dfs_marks s'"
  have "?P (dfsLoop s) \<and> stack (dfsLoop s) = []"
    by (rule dfsLoop_rule) (simp_all add: assms dfs_dag_step dfs_marks_step)
  then show "dfs_dag (dfsLoop s)" and "dfs_marks (dfsLoop s)" and "stack (dfsLoop s) = []"
    by simp_all
qed

lemma dfsFragment_dag:
  assumes "dfs_dag s" "dfs_marks s" "stack s = []" "visited s first = NotVisited"
  shows "dfs_dag (dfsFragment first s)" and "dfs_marks (dfsFragment first s)"
    and "stack (dfsFragment first s) = []"
proof -
  let ?s = "s\<lparr>visited := (visited s)(first := InStack), stack := (first, 0) # stack s\<rparr>"
  have ni: "\<And>v. visited s v \<noteq> InStack" using dfs_marks_idle [OF assms(2,3)] by simp
  have m: "dfs_marks ?s"
    using assms(2,3,4) ni unfolding dfs_marks_def by auto
  have "dfs_dag ?s"
    using assms(1,3,4) unfolding dfs_dag_def by auto
  from dfsLoop_dag [OF this m]
  show "dfs_dag (dfsFragment first s)" and "dfs_marks (dfsFragment first s)"
    and "stack (dfsFragment first s) = []"
    by (simp_all add: dfsFragment_def)
qed

lemma dfsRemaining_dag:
  assumes "dfs_dag s" "dfs_marks s" "stack s = []"
  shows "dfs_dag (fold dfsRemaining ks s) \<and> dfs_marks (fold dfsRemaining ks s) \<and>
         stack (fold dfsRemaining ks s) = []"
  using assms
proof (induction ks arbitrary: s)
  case Nil
  then show ?case by simp
next
  case (Cons k ks)
  have "dfs_dag (dfsRemaining k s) \<and> dfs_marks (dfsRemaining k s) \<and> stack (dfsRemaining k s) = []"
    using Cons.prems dfsFragment_dag [of s k] by (simp add: dfsRemaining_def)
  with Cons.IH [of "dfsRemaining k s"] show ?case by simp
qed

text \<open>
  After \<open>topoSort\<close> on a grid without DAG edges: the order has no repetitions, every block
  with DAG edges is in the order, and the DAG edges go to blocks earlier in the order.
\<close>

lemma topoSort_dag:
  fixes hord state entry
  assumes "\<And>v. dag_edge (gb (grid_blocks state) v) = []"
  defines "r \<equiv> topoSort hord state entry"
  shows "distinct (snd r)" and "targets_later (gb (grid_blocks (fst r))) (rev (snd r))"
    and "\<And>v. v \<notin> set (snd r) \<Longrightarrow> dag_edge (gb (grid_blocks (fst r)) v) = []"
proof -
  let ?s0 = "\<lparr>dfs_blocks = blocks state, dfs_grid = grid_blocks state,
              visited = (\<lambda>k. NotVisited), stack = [], blockOrder = []\<rparr>"
  have d0: "dfs_dag ?s0" using assms(1) by (simp add: dfs_dag_def)
  have m0: "dfs_marks ?s0" by (simp add: dfs_marks_def)
  note f = dfsFragment_dag [OF d0 m0, of entry]
  let ?s = "topoSort_dfs hord state entry"
  have "dfs_dag ?s \<and> dfs_marks ?s \<and> stack ?s = []"
    unfolding topoSort_dfs_def Let_def using f by (intro dfsRemaining_dag) simp_all
  then have d: "dfs_dag ?s" and m: "dfs_marks ?s" and e: "stack ?s = []" by simp_all
  have r: "snd r = blockOrder ?s" "grid_blocks (fst r) = dfs_grid ?s"
    by (simp_all add: r_def topoSort_def Let_def)
  show "distinct (snd r)" using m by (simp add: r dfs_marks_def)
  show "targets_later (gb (grid_blocks (fst r))) (rev (snd r))"
    using d by (simp add: r dfs_dag_def)
  show "dag_edge (gb (grid_blocks (fst r)) v) = []" if "v \<notin> set (snd r)" for v
  proof -
    from that have "visited ?s v = NotVisited"
      using dfs_marks_idle(2) [OF m e, of v] by (simp add: r)
    then show ?thesis using d by (simp add: r dfs_dag_def)
  qed
qed

subsection \<open>assignRows\<close>

lemma gb_raiseRows:
  "gb (fold (raiseRow n) ts g) =
     (\<lambda>u. if u \<in> set ts then (gb g u)\<lparr>row := max (row (gb g u)) n\<rparr> else gb g u)"
proof (induction ts arbitrary: g)
  case Nil
  show ?case by simp
next
  case (Cons t ts)
  have "gb (raiseRow n t g) = (gb g)(t := (gb g t)\<lparr>row := max (row (gb g t)) n\<rparr>)"
    by (simp add: raiseRow_def Let_def gb_def umap_at_put)
  then show ?case by (auto simp: Cons.IH fun_eq_iff)
qed

lemma gb_assignRowsBlock:
  "gb (assignRowsBlock v g) =
     (\<lambda>u. if u \<in> set (dag_edge (gb g v))
           then (gb g u)\<lparr>row := max (row (gb g u)) (row (gb g v) + 1)\<rparr> else gb g u)"
proof -
  have "assignRowsBlock v g =
      fold (raiseRow (row (gb g v) + 1)) (dag_edge (gb g v)) (umap_touch default_GridBlock v g)"
    by (simp add: assignRowsBlock_def Let_def gb_def)
  then show ?thesis by (simp add: gb_raiseRows cong: if_cong)
qed

lemma assignRows_fold:
  assumes "targets_later (gb g) vs" "distinct vs"
  defines "g' \<equiv> fold assignRowsBlock vs g"
  shows "\<And>u. dag_edge (gb g' u) = dag_edge (gb g u)"
    and "\<And>u. row (gb g u) \<le> row (gb g' u)"
    and "\<And>u. u \<notin> set vs \<Longrightarrow> row (gb g' u) = row (gb g u)"
    and "\<And>v t. v \<in> set vs \<Longrightarrow> t \<in> set (dag_edge (gb g v)) \<Longrightarrow> row (gb g' v) + 1 \<le> row (gb g' t)"
proof -
  have "(\<forall>u. dag_edge (gb (fold assignRowsBlock vs g) u) = dag_edge (gb g u)) \<and>
        (\<forall>u. row (gb g u) \<le> row (gb (fold assignRowsBlock vs g) u)) \<and>
        (\<forall>u. u \<notin> set vs \<longrightarrow> row (gb (fold assignRowsBlock vs g) u) = row (gb g u)) \<and>
        (\<forall>v t. v \<in> set vs \<longrightarrow> t \<in> set (dag_edge (gb g v)) \<longrightarrow>
            row (gb (fold assignRowsBlock vs g) v) + 1 \<le> row (gb (fold assignRowsBlock vs g) t))"
    using assms(1,2)
  proof (induction vs arbitrary: g)
    case Nil
    then show ?case by simp
  next
    case (Cons v vs)
    let ?g1 = "assignRowsBlock v g"
    let ?g2 = "fold assignRowsBlock vs ?g1"
    have sub: "set (dag_edge (gb g v)) \<subseteq> set vs" and later: "targets_later (gb g) vs"
      and v: "v \<notin> set vs" and d: "distinct vs"
      using Cons.prems by simp_all
    have dag1: "\<And>u. dag_edge (gb ?g1 u) = dag_edge (gb g u)"
      by (simp add: gb_assignRowsBlock)
    have row1: "\<And>u. row (gb ?g1 u) =
        (if u \<in> set (dag_edge (gb g v)) then max (row (gb g u)) (row (gb g v) + 1) else row (gb g u))"
      by (simp add: gb_assignRowsBlock)
    have "targets_later (gb ?g1) vs"
      using later targets_later_cong [of vs "gb ?g1" "gb g"] dag1 by simp
    from Cons.IH [OF this d]
    have ih1: "\<And>u. dag_edge (gb ?g2 u) = dag_edge (gb ?g1 u)"
      and ih2: "\<And>u. row (gb ?g1 u) \<le> row (gb ?g2 u)"
      and ih3: "\<And>u. u \<notin> set vs \<Longrightarrow> row (gb ?g2 u) = row (gb ?g1 u)"
      and ih4: "\<And>w t. w \<in> set vs \<Longrightarrow> t \<in> set (dag_edge (gb ?g1 w)) \<Longrightarrow>
                 row (gb ?g2 w) + 1 \<le> row (gb ?g2 t)"
      by blast+
    have vrow: "row (gb ?g2 v) = row (gb g v)"
      using ih3 [OF v] row1 [of v] sub v by auto
    have a: "\<forall>u. dag_edge (gb ?g2 u) = dag_edge (gb g u)" using ih1 dag1 by simp
    have b: "\<forall>u. row (gb g u) \<le> row (gb ?g2 u)"
    proof
      fix u
      have "row (gb g u) \<le> row (gb ?g1 u)" by (simp add: row1)
      with ih2 [of u] show "row (gb g u) \<le> row (gb ?g2 u)" by simp
    qed
    have c: "\<forall>u. u \<notin> set (v # vs) \<longrightarrow> row (gb ?g2 u) = row (gb g u)"
      using ih3 row1 sub by auto
    have e: "\<forall>w t. w \<in> set (v # vs) \<longrightarrow> t \<in> set (dag_edge (gb g w)) \<longrightarrow>
                 row (gb ?g2 w) + 1 \<le> row (gb ?g2 t)"
    proof (intro allI impI)
      fix w t assume w: "w \<in> set (v # vs)" and t: "t \<in> set (dag_edge (gb g w))"
      show "row (gb ?g2 w) + 1 \<le> row (gb ?g2 t)"
      proof (cases "w = v")
        case True
        have "row (gb g v) + 1 \<le> row (gb ?g1 t)" using t True by (simp add: row1)
        with ih2 [of t] vrow True show ?thesis by simp
      next
        case False
        with w have "w \<in> set vs" by simp
        then show ?thesis using ih4 [of w t] t dag1 by simp
      qed
    qed
    show ?case using a b c e by simp
  qed
  then show "\<And>u. dag_edge (gb g' u) = dag_edge (gb g u)"
    and "\<And>u. row (gb g u) \<le> row (gb g' u)"
    and "\<And>u. u \<notin> set vs \<Longrightarrow> row (gb g' u) = row (gb g u)"
    and "\<And>v t. v \<in> set vs \<Longrightarrow> t \<in> set (dag_edge (gb g v)) \<Longrightarrow> row (gb g' v) + 1 \<le> row (gb g' t)"
    unfolding g'_def by blast+
qed

subsection \<open>End-to-end scenario E1\<close>

text \<open>
  C9: for the single block 1 of width 100 and height 50, entry 1, no edges, the Medium
  layout and all four spacings equal to 10, the layout returns width 120 and height 70 and
  places the block at (10, 10), whatever the iteration order of the hash maps, the order
  of equivalent elements in the sorted vectors and the vertical alignment.
\<close>

theorem single_node_layout:
  assumes "conforming impl"
  shows "CalculateLayout (new_GraphGridLayout Medium config10 middle) impl
           [(1, block_of 100 50 [])] 1
         = Inr ([(1, \<lparr>blk_x = 10, blk_y = 10, width = 100, height = 50, edges = []\<rparr>)], 120, 70)"
  by (simp add: conforming_small [OF assms] layout_defs config10_def block_of_def Let_def
      signed_divide_int_def)

theorem single_node_layout_witness:
  "CalculateLayout (new_GraphGridLayout Medium config10 False) in_order
           [(1, block_of 100 50 [])] 1
         = Inr ([(1, \<lparr>blk_x = 10, blk_y = 10, width = 100, height = 50, edges = []\<rparr>)], 120, 70)"
  using single_node_layout [OF conforming_in_order, of False] .

subsection \<open>Empty input\<close>

text \<open>
  C3, as stated, fails: with no blocks, entry 1 and the default configuration (Medium, all
  spacings 10) the layout succeeds, but \<open>topoSort\<close> has inserted the entry as a block of
  size zero and the result is width 30 and height 20, not 0 and 0.
\<close>

theorem empty_input_counterexample:
  "CalculateLayout (new_GraphGridLayout Medium config10 False) in_order [] 1
   = Inr ([(1, \<lparr>blk_x = 15, blk_y = 10, width = 0, height = 0, edges = []\<rparr>),
           (0, \<lparr>blk_x = 15, blk_y = 10, width = 0, height = 0, edges = []\<rparr>)], 30, 20)"
  by code_simp

lemma empty_input_nonzero_entry:
  assumes "conforming impl" "entry \<noteq> 0"
  shows "map_sum id snd (CalculateLayout (new_GraphGridLayout Medium config10 middle) impl [] entry)
     = Inr (30, 20)"
  using assms(2)
  by (simp add: conforming_small [OF assms(1)] layout_defs config10_def Let_def
      signed_divide_int_def)

lemma empty_input_zero_entry:
  assumes "conforming impl"
  shows "map_sum id snd (CalculateLayout (new_GraphGridLayout Medium config10 middle) impl [] 0)
     = Inr (30, 20)"
  by (simp add: conforming_small [OF assms] layout_defs config10_def Let_def
      signed_divide_int_def)

text \<open>
  C3, amended: with no blocks and the default configuration (Medium, all spacings 10) the
  layout succeeds for every entry id, and returns width 30 (the two outer edge columns
  and the edge column of the inserted entry block) and height 20 (the two outer edge
  rows), whatever the iteration order of the hash maps and the vertical alignment.
\<close>

theorem empty_input_size:
  assumes "conforming impl"
  shows "map_sum id snd (CalculateLayout (new_GraphGridLayout Medium config10 middle) impl [] entry)
     = Inr (30, 20)"
proof (cases "entry = 0")
  case True
  then show ?thesis using empty_input_zero_entry [OF assms] by simp
next
  case False
  then show ?thesis using empty_input_nonzero_entry [OF assms] by simp
qed

theorem empty_input_size_witness:
  "map_sum id snd (CalculateLayout (new_GraphGridLayout Medium config10 False) in_order [] 1)
     = Inr (30, 20)"
  using empty_input_size [OF conforming_in_order, of False 1] .

subsection \<open>Determinism\<close>

lemma two_roots_in_order:
  "CalculateLayout (new_GraphGridLayout Medium config10 False) in_order
        [(1, block_of 100 50 []), (2, block_of 100 50 [])] 1
   = Inr ([(1, \<lparr>blk_x = 10, blk_y = 10, width = 100, height = 50, edges = []\<rparr>),
           (2, \<lparr>blk_x = 120, blk_y = 10, width = 100, height = 50, edges = []\<rparr>)], 230, 70)"
  by code_simp

lemma two_roots_swapped:
  "CalculateLayout (new_GraphGridLayout Medium config10 False) swapped
        [(1, block_of 100 50 []), (2, block_of 100 50 [])] 1
   = Inr ([(1, \<lparr>blk_x = 120, blk_y = 10, width = 100, height = 50, edges = []\<rparr>),
           (2, \<lparr>blk_x = 10, blk_y = 10, width = 100, height = 50, edges = []\<rparr>)], 230, 70)"
  by code_simp

text \<open>
  C1, as stated, fails: the output depends on the iteration order of the hash maps. For
  two blocks without edges, two enumeration orders of the same maps place the blocks at
  different positions.
\<close>

theorem iteration_order_counterexample:
  "conforming in_order \<and> conforming swapped \<and>
   CalculateLayout (new_GraphGridLayout Medium config10 False) in_order
        [(1, block_of 100 50 []), (2, block_of 100 50 [])] 1
   \<noteq> CalculateLayout (new_GraphGridLayout Medium config10 False) swapped
        [(1, block_of 100 50 []), (2, block_of 100 50 [])] 1"
  by (simp add: two_roots_in_order two_roots_swapped conforming_in_order conforming_swapped)

subsection \<open>Rough routing\<close>

text \<open>
  C4, as stated, fails: for the two blocks 1 and 2 with the edges 1 \<rightarrow> 2 and 2 \<rightarrow> 1, rough
  routing gives the edge 2 \<rightarrow> 1 six points (five segments around block 1).
\<close>

theorem rough_routing_counterexample:
  "map_sum id (\<lambda>st. map (\<lambda>p. (pt_row p, pt_col p)) (points (umap_at [] (edge st) 2 ! 0)))
     (roughLayout (new_GraphGridLayout Medium config10 False) in_order
        [(1, block_of 100 50 [2]), (2, block_of 100 50 [1])] 1)
   = Inr [(2, 1), (2, 1), (2, 2), (0, 2), (0, 1), (0, 1)]"
  by code_simp

text \<open>Rough routing of one edge.\<close>

definition edge_at :: "LayoutState \<Rightarrow> ut64 \<Rightarrow> GridEdge list" where
  "edge_at st = umap_at [] (edge st)"

definition grid_at :: "LayoutState \<Rightarrow> ut64 \<Rightarrow> GridBlock" where
  "grid_at st = umap_at default_GridBlock (grid_blocks st)"

text \<open>
  The points of a routed edge of block \<open>k\<close>: between 2 and 6, from the exit anchor below
  the source block to the entry anchor above the target block.
\<close>

definition anchored :: "(ut64 \<Rightarrow> GridBlock) \<Rightarrow> ut64 \<Rightarrow> GridEdge \<Rightarrow> bool" where
  "anchored g k e =
     (2 \<le> length (points e) \<and> length (points e) \<le> 6 \<and>
      pt_row (hd (points e)) = row (g k) + 1 \<and> pt_col (hd (points e)) = col (g k) + 1 \<and>
      pt_row (last (points e)) = row (g (dest e)) \<and> pt_col (last (points e)) = col (g (dest e)) + 1)"

lemma routePoints_anchors:
  assumes "points e = []"
  shows "2 \<le> length (points (routePoints start tgt e))"
    and "length (points (routePoints start tgt e)) \<le> 6"
    and "pt_row (hd (points (routePoints start tgt e))) = row start + 1"
    and "pt_col (hd (points (routePoints start tgt e))) = col start + 1"
    and "pt_row (last (points (routePoints start tgt e))) = row tgt"
    and "pt_col (last (points (routePoints start tgt e))) = col tgt + 1"
    and "dest (routePoints start tgt e) = dest e"
  using assms by (simp_all add: routePoints_def addPoint_def Let_def)

lemma spacing_shape:
  assumes "2 \<le> length ps"
  shows "length (setBackSpacing b (setFrontSpacing a ps)) = length ps"
    and "pt_row (hd (setBackSpacing b (setFrontSpacing a ps))) = pt_row (hd ps)"
    and "pt_col (hd (setBackSpacing b (setFrontSpacing a ps))) = pt_col (hd ps)"
    and "pt_row (last (setBackSpacing b (setFrontSpacing a ps))) = pt_row (last ps)"
    and "pt_col (last (setBackSpacing b (setFrontSpacing a ps))) = pt_col (last ps)"
proof -
  obtain p ps' where "ps = p # ps'" using assms by (cases ps) auto
  moreover from this assms obtain qs q where "ps' = qs @ [q]" by (cases ps' rule: rev_cases) auto
  ultimately have ps: "ps = p # qs @ [q]" by simp
  show "length (setBackSpacing b (setFrontSpacing a ps)) = length ps"
    and "pt_row (hd (setBackSpacing b (setFrontSpacing a ps))) = pt_row (hd ps)"
    and "pt_col (hd (setBackSpacing b (setFrontSpacing a ps))) = pt_col (hd ps)"
    and "pt_row (last (setBackSpacing b (setFrontSpacing a ps))) = pt_row (last ps)"
    and "pt_col (last (setBackSpacing b (setFrontSpacing a ps))) = pt_col (last ps)"
    unfolding ps by (simp_all add: setBackSpacing_def setFrontSpacing_def)
qed

lemma umap_at_put_same: "umap_at d (umap_put k v m) k = v"
  by (simp add: umap_at_put)

lemma umap_at_put_other: "j \<noteq> k \<Longrightarrow> umap_at d (umap_put k v m) j = umap_at d m j"
  by (simp add: umap_at_put)

lemma umap_at_touch_nil [simp]: "umap_at [] (umap_touch [] k m) = umap_at [] m"
  by (rule umap_at_touch)

text \<open>What \<open>routeEdge\<close> does to the state: it replaces the edge \<open>i\<close> of block \<open>k\<close>.\<close>

lemma routeEdge_result:
  assumes "routeEdge L k i st = Inr st'" and "points (edge_at st k ! i) = []"
  shows "grid_at st' = grid_at st"
    and "\<exists>e. anchored (grid_at st) k e \<and> edge_at st' = (edge_at st)(k := (edge_at st k)[i := e])"
proof -
  let ?e0 = "edge_at st k ! i"
  let ?start = "grid_at st k"
  let ?tgt = "grid_at st (dest ?e0)"
  let ?e4 = "routePoints ?start ?tgt ?e0"
  obtain a b where st': "st' = st\<lparr>grid_blocks := umap_touch default_GridBlock (dest ?e0) (grid_blocks st),
        blocks := umap_touch default_GraphBlock (block_id ?tgt)
                    (umap_touch default_GraphBlock (block_id ?start) (blocks st)),
        edge := umap_put k ((edge_at st k)[i := ?e4\<lparr>points := setBackSpacing b (setFrontSpacing a (points ?e4)),
                 secondaryPriority := 2 * pathLength (setBackSpacing b (setFrontSpacing a (points ?e4)))
                    + (if row ?tgt \<ge> row ?start then 1 else 0)\<rparr>]) (edge st)\<rparr>"
    using assms(1)
    by (auto simp: routeEdge_def Let_def edge_at_def grid_at_def split: sum.splits)
  show "grid_at st' = grid_at st"
    unfolding st' by (rule ext) (simp add: grid_at_def)
  let ?e5 = "?e4\<lparr>points := setBackSpacing b (setFrontSpacing a (points ?e4)),
                 secondaryPriority := 2 * pathLength (setBackSpacing b (setFrontSpacing a (points ?e4)))
                    + (if row ?tgt \<ge> row ?start then 1 else 0)\<rparr>"
  note rp = routePoints_anchors [OF assms(2), of ?start ?tgt]
  note sp = spacing_shape [OF rp(1), of b a]
  have "anchored (grid_at st) k ?e5"
    using rp sp by (simp add: anchored_def)
  moreover have "edge_at st' = (edge_at st)(k := (edge_at st k)[i := ?e5])"
    unfolding st' by (rule ext) (simp add: edge_at_def umap_at_put)
  ultimately show "\<exists>e. anchored (grid_at st) k e \<and> edge_at st' = (edge_at st)(k := (edge_at st k)[i := e])"
    by blast
qed

text \<open>
  The edges during \<open>roughRouting\<close>: block \<open>k\<close> has \<open>N k\<close> edges; the edges in \<open>D\<close> are
  routed, the others have no points yet.
\<close>

definition routing :: "(ut64 \<Rightarrow> GridBlock) \<Rightarrow> (ut64 \<Rightarrow> nat) \<Rightarrow> (ut64 \<times> nat) set \<Rightarrow> LayoutState \<Rightarrow> bool" where
  "routing g N D st =
     (grid_at st = g \<and>
      (\<forall>k. length (edge_at st k) = N k \<and>
           (\<forall>i < N k. ((k, i) \<in> D \<longrightarrow> anchored g k (edge_at st k ! i)) \<and>
                       ((k, i) \<notin> D \<longrightarrow> points (edge_at st k ! i) = []))))"

lemma routing_routeEdge:
  assumes "routing g N D st" "routeEdge L k i st = Inr st'" "i < N k" "(k, i) \<notin> D"
  shows "routing g N (insert (k, i) D) st'"
proof -
  have g: "grid_at st = g" and len: "\<And>j. length (edge_at st j) = N j"
    and el: "\<And>j n. n < N j \<Longrightarrow> ((j, n) \<in> D \<longrightarrow> anchored g j (edge_at st j ! n)) \<and>
                       ((j, n) \<notin> D \<longrightarrow> points (edge_at st j ! n) = [])"
    using assms(1) by (simp_all add: routing_def)
  have "points (edge_at st k ! i) = []" using el [OF assms(3)] assms(4) by simp
  from routeEdge_result [OF assms(2) this] obtain e where
    g': "grid_at st' = grid_at st" and a: "anchored (grid_at st) k e"
    and e': "edge_at st' = (edge_at st)(k := (edge_at st k)[i := e])"
    by blast
  have 1: "grid_at st' = g" using g g' by simp
  have 2: "length (edge_at st' j) = N j" for j using len by (simp add: e')
  have 3: "((j, n) \<in> insert (k, i) D \<longrightarrow> anchored g j (edge_at st' j ! n)) \<and>
          ((j, n) \<notin> insert (k, i) D \<longrightarrow> points (edge_at st' j ! n) = [])" if n: "n < N j" for j n
    using el [OF n] a g len [of k] n assms(3)
    by (auto simp: e' nth_list_update)
  show ?thesis
    unfolding routing_def using 1 2 3 by blast
qed

lemma routing_routeEdges:
  assumes "routing g N D st" "foldE (routeEdge L k) is st = Inr st'" "distinct is"
    "\<forall>i \<in> set is. i < N k \<and> (k, i) \<notin> D"
  shows "routing g N (D \<union> {k} \<times> set is) st'"
  using assms
proof (induction "is" arbitrary: D st)
  case Nil
  then show ?case by simp
next
  case (Cons i "is")
  from Cons.prems(2) obtain st1 where a: "routeEdge L k i st = Inr st1"
    and b: "foldE (routeEdge L k) is st1 = Inr st'"
    by (auto split: sum.splits)
  have "routing g N (insert (k, i) D) st1"
    using routing_routeEdge [OF Cons.prems(1) a] Cons.prems(4) by simp
  from Cons.IH [OF this b] Cons.prems(3,4)
  have "routing g N (insert (k, i) D \<union> {k} \<times> set is) st'" by auto
  then show ?case by simp
qed

lemma routing_touch_edge:
  "routing g N D st \<Longrightarrow> routing g N D (st\<lparr>edge := umap_touch [] k (edge st)\<rparr>)"
  by (simp add: routing_def edge_at_def grid_at_def)

lemma routing_routeBlockEdges:
  assumes "routing g N D st" "routeBlockEdges L k st = Inr st'" "k \<notin> fst ` D"
  shows "routing g N (D \<union> {k} \<times> {..<N k}) st'"
proof -
  let ?st1 = "st\<lparr>edge := umap_touch [] k (edge st)\<rparr>"
  have r: "routing g N D ?st1" using assms(1) by (rule routing_touch_edge)
  then have len: "length (umap_at [] (edge ?st1) k) = N k"
    by (simp add: routing_def edge_at_def)
  have f: "foldE (routeEdge L k) [0..<N k] ?st1 = Inr st'"
    using assms(2) len by (simp add: routeBlockEdges_def Let_def)
  have "\<forall>i \<in> set [0..<N k]. i < N k \<and> (k, i) \<notin> D"
    using assms(3) by (auto simp: image_iff)
  from routing_routeEdges [OF r f _ this] show ?thesis
    by (simp add: lessThan_atLeast0)
qed

lemma routing_roughRouting_fold:
  assumes "routing g N D st" "foldE (routeBlockEdges L) ks st = Inr st'" "distinct ks"
    "set ks \<inter> fst ` D = {}"
  shows "routing g N (D \<union> (\<Union>k \<in> set ks. {k} \<times> {..<N k})) st'"
  using assms
proof (induction ks arbitrary: D st)
  case Nil
  then show ?case by simp
next
  case (Cons k ks)
  from Cons.prems(2) obtain st1 where a: "routeBlockEdges L k st = Inr st1"
    and b: "foldE (routeBlockEdges L) ks st1 = Inr st'"
    by (auto split: sum.splits)
  have r: "routing g N (D \<union> {k} \<times> {..<N k}) st1"
    using routing_routeBlockEdges [OF Cons.prems(1) a] Cons.prems(4) by auto
  have "set ks \<inter> fst ` (D \<union> {k} \<times> {..<N k}) = {}"
    using Cons.prems(3,4) by auto
  from Cons.IH [OF r b _ this] Cons.prems(3)
  have "routing g N (D \<union> {k} \<times> {..<N k} \<union> (\<Union>j \<in> set ks. {j} \<times> {..<N j})) st'" by simp
  then show ?case by (simp add: Un_assoc)
qed

text \<open>\<open>roughRouting\<close> on a state whose edges have no points.\<close>

lemma roughRouting_anchored:
  assumes "roughRouting L hord st = Inr st'" and "enumerates hord"
    and "distinct (umap_keys (grid_blocks st))"
    and "\<And>j e. e \<in> set (edge_at st j) \<Longrightarrow> points e = []"
    and "k \<in> set (umap_keys (grid_blocks st))" and "i < length (edge_at st' k)"
  shows "anchored (grid_at st') k (edge_at st' k ! i)"
proof -
  let ?N = "\<lambda>j. length (edge_at st j)"
  let ?ks = "hord (umap_keys (grid_blocks st))"
  have r0: "routing (grid_at st) ?N {} st"
    using assms(4) nth_mem by (auto simp: routing_def)
  have f: "foldE (routeBlockEdges L) ?ks st = Inr st'"
    using assms(1) by (simp add: roughRouting_def)
  have d: "distinct ?ks" using assms(2,3) by (simp add: enumerates_distinct)
  from routing_roughRouting_fold [OF r0 f d]
  have r: "routing (grid_at st) ?N (\<Union>j \<in> set ?ks. {j} \<times> {..<?N j}) st'" by simp
  have k: "k \<in> set ?ks" using assms(2,5) by (simp add: enumerates_set)
  have g: "grid_at st' = grid_at st" and len: "length (edge_at st' k) = ?N k"
    using r by (simp_all add: routing_def)
  have "(k, i) \<in> (\<Union>j \<in> set ?ks. {j} \<times> {..<?N j})" using k assms(6) len by auto
  moreover have "i < ?N k" using assms(6) len by simp
  moreover have "\<And>j n. n < ?N j \<Longrightarrow> (j, n) \<in> (\<Union>j \<in> set ?ks. {j} \<times> {..<?N j})
       \<Longrightarrow> anchored (grid_at st) j (edge_at st' j ! n)"
    using r unfolding routing_def by blast
  ultimately show ?thesis using g by simp
qed

lemma roughRouting_length:
  assumes "roughRouting L hord st = Inr st'" and "enumerates hord"
    and "distinct (umap_keys (grid_blocks st))"
    and "\<And>j e. e \<in> set (edge_at st j) \<Longrightarrow> points e = []"
  shows "length (edge_at st' k) = length (edge_at st k)"
proof -
  let ?N = "\<lambda>j. length (edge_at st j)"
  let ?ks = "hord (umap_keys (grid_blocks st))"
  have r0: "routing (grid_at st) ?N {} st"
    using assms(4) nth_mem by (auto simp: routing_def)
  have f: "foldE (routeBlockEdges L) ?ks st = Inr st'"
    using assms(1) by (simp add: roughRouting_def)
  have d: "distinct ?ks" using assms(2,3) by (simp add: enumerates_distinct)
  from routing_roughRouting_fold [OF r0 f d]
  have r: "routing (grid_at st) ?N (\<Union>j \<in> set ?ks. {j} \<times> {..<?N j}) st'" by simp
  then show ?thesis by (simp add: routing_def)
qed

text \<open>No edge has points, and only blocks of the input have edges.\<close>

definition unrouted :: "(ut64 \<times> GraphBlock) list \<Rightarrow> (ut64 \<times> GridEdge list) list \<Rightarrow> bool" where
  "unrouted bs em =
     (\<forall>k. (\<forall>e \<in> set (umap_at [] em k). points e = []) \<and>
          (umap_at [] em k \<noteq> [] \<longrightarrow> k \<in> set (umap_keys bs)))"

lemma unrouted_Nil [simp]: "unrouted bs []"
  by (simp add: unrouted_def umap_at_def)

lemma unrouted_touch [simp]: "unrouted bs em \<Longrightarrow> unrouted bs (umap_touch [] k em)"
  by (simp add: unrouted_def)

lemma set_resize: "set (resize n d xs) \<subseteq> insert d (set xs)"
  by (auto simp: resize_def dest: in_set_takeD)

lemma unrouted_initEdgesBlock:
  assumes "unrouted bs em" "edges_of bs' = edges_of bs"
  shows "unrouted bs (initEdgesBlock bs' k em)"
proof -
  let ?es = "edges_of bs' k"
  let ?new = "map (\<lambda>(ge, e). ge\<lparr>dest := target e\<rparr>)
                (zip (resize (length ?es) default_GridEdge (umap_at [] em k)) ?es)"
  have eq: "umap_at [] (initEdgesBlock bs' k em) = (umap_at [] em)(k := ?new)"
    by (simp add: initEdgesBlock_def Let_def umap_at_put edges_of_def)
  have old: "\<And>e. e \<in> set (umap_at [] em k) \<Longrightarrow> points e = []"
    using assms(1) by (simp add: unrouted_def)
  have "points e = []" if "e \<in> set ?new" for e
  proof -
    from that obtain ge x where
      "(ge, x) \<in> set (zip (resize (length ?es) default_GridEdge (umap_at [] em k)) ?es)"
      and e: "e = ge\<lparr>dest := target x\<rparr>"
      by auto
    then have "ge \<in> set (resize (length ?es) default_GridEdge (umap_at [] em k))"
      by (auto dest: set_zip_leftD)
    with e show ?thesis using set_resize [of "length ?es" default_GridEdge "umap_at [] em k"] old
      by (auto simp: default_GridEdge_def)
  qed
  moreover have "k \<in> set (umap_keys bs)" if "?new \<noteq> []"
  proof -
    from that have "?es \<noteq> []" by auto
    then show ?thesis using edges_of_keys [of bs k] assms(2) by simp
  qed
  ultimately show ?thesis
    using assms(1) unfolding unrouted_def eq by auto
qed

lemma unrouted_initEdges:
  assumes "unrouted bs (edge st)" "edges_of (blocks st) = edges_of bs"
  shows "unrouted bs (edge (initEdges hord st))"
proof -
  have "unrouted bs (fold (initEdgesBlock (blocks st)) ks em)" if "unrouted bs em" for ks em
    using that by (induction ks arbitrary: em) (simp_all add: unrouted_initEdgesBlock assms(2))
  then show ?thesis using assms(1) by (simp add: initEdges_def)
qed

text \<open>What the stages before \<open>roughRouting\<close> leave unchanged.\<close>

lemma edges_of_dfsStep: "edges_of (dfs_blocks (dfsStep s)) = edges_of (dfs_blocks s)"
  by (simp add: dfsStep_def Let_def split: list.splits prod.splits State.splits)

lemma edges_of_dfsLoop: "edges_of (dfs_blocks (dfsLoop s)) = edges_of (dfs_blocks s)"
  using dfsLoop_rule [where P = "\<lambda>s'. edges_of (dfs_blocks s') = edges_of (dfs_blocks s)" and s = s]
  by (simp add: edges_of_dfsStep)

lemma edges_of_dfsFragment: "edges_of (dfs_blocks (dfsFragment k s)) = edges_of (dfs_blocks s)"
  by (simp add: dfsFragment_def edges_of_dfsLoop)

lemma edges_of_dfsRemaining: "edges_of (dfs_blocks (fold dfsRemaining ks s)) = edges_of (dfs_blocks s)"
  by (induction ks arbitrary: s) (simp_all add: dfsRemaining_def edges_of_dfsFragment)

lemma edges_of_topoSort: "edges_of (blocks (fst (topoSort hord st entry))) = edges_of (blocks st)"
  by (simp add: topoSort_def topoSort_dfs_def Let_def edges_of_dfsRemaining edges_of_dfsFragment)

lemma edge_topoSort: "edge (fst (topoSort hord st entry)) = edge st"
  by (simp add: topoSort_def Let_def)

lemma frame_computeAllBlockPlacement:
  assumes "computeAllBlockPlacement L hord order st = Inr st'"
  shows "blocks st' = blocks st" and "edge st' = edge st"
  using assms
  by (auto simp: computeAllBlockPlacement_def Let_def assignRows_def selectTree_def findMergePoints_def
      split: sum.splits)

lemma placedLayout_frame:
  assumes "placedLayout L hord bs entry = Inr st" and "enumerates hord"
  shows "has_keys (set (umap_keys bs)) (grid_blocks st)" and "edge st = []"
    and "edges_of (blocks st) = edges_of bs"
proof -
  let ?s0 = "initGridBlocks hord (emptyLayoutState bs)"
  obtain s1 order where t: "topoSort hord ?s0 entry = (s1, order)" by (cases "topoSort hord ?s0 entry")
  then have c: "computeAllBlockPlacement L hord order s1 = Inr st"
    using assms(1) by (simp add: placedLayout_def)
  have s1: "s1 = fst (topoSort hord ?s0 entry)" using t by simp
  have "has_keys (set (umap_keys bs)) (grid_blocks s1)"
    unfolding s1 by (intro has_keys_topoSort has_keys_initGridBlocks assms(2))
  then show "has_keys (set (umap_keys bs)) (grid_blocks st)"
    using c by (rule has_keys_computeAllBlockPlacement)
  have "edge s1 = []" unfolding s1 by (simp add: edge_topoSort initGridBlocks_def emptyLayoutState_def)
  then show "edge st = []" using frame_computeAllBlockPlacement [OF c] by simp
  have "edges_of (blocks s1) = edges_of bs"
    unfolding s1 by (simp add: edges_of_topoSort initGridBlocks_def emptyLayoutState_def)
  then show "edges_of (blocks st) = edges_of bs" using frame_computeAllBlockPlacement [OF c] by simp
qed

lemma has_keys_countEdges: "has_keys S (grid_blocks st) \<Longrightarrow> has_keys S (grid_blocks (countEdges hord st))"
  by (simp add: countEdges_def) (intro has_keys_fold, simp_all add: countEdgesOf_def has_keys_fold)

lemma initSizes_frame [simp]:
  "grid_blocks (initSizes hord st) = grid_blocks st" "edge (initSizes hord st) = edge st"
proof -
  have "grid_blocks (fold initSizesBlock ks s) = grid_blocks s \<and> edge (fold initSizesBlock ks s) = edge s"
    for ks s
    by (induction ks arbitrary: s) (simp_all add: initSizesBlock_def Let_def)
  then show "grid_blocks (initSizes hord st) = grid_blocks st" "edge (initSizes hord st) = edge st"
    by (simp_all add: initSizes_def)
qed

lemma gridLayout_frame:
  assumes "gridLayout L hord bs entry = Inr st" and "enumerates hord"
  shows "has_keys (set (umap_keys bs)) (grid_blocks st)" and "unrouted bs (edge st)"
proof -
  obtain p where p: "placedLayout L hord bs entry = Inr p"
    and st: "st = initSizes hord (gridSize hord (countEdges hord (initEdges hord p)))"
    using assms(1) by (auto simp: gridLayout_def split: sum.splits)
  note f = placedLayout_frame [OF p assms(2)]
  have "has_keys (set (umap_keys bs)) (grid_blocks (countEdges hord (initEdges hord p)))"
    using f(1) by (intro has_keys_countEdges) (simp add: initEdges_def)
  then show "has_keys (set (umap_keys bs)) (grid_blocks st)"
    by (simp add: st gridSize_def Let_def)
  have "unrouted bs (edge (initEdges hord p))"
    using f(2,3) by (intro unrouted_initEdges) simp_all
  then show "unrouted bs (edge st)"
    by (simp add: st gridSize_def Let_def countEdges_def)
qed

text \<open>\<open>calculateEdgeMainColumn\<close> sets main columns only.\<close>

lemma blockEvents_frame:
  assumes "has_keys S (grid_blocks (fst acc))" "unrouted bs (edge (fst acc))"
  shows "has_keys S (grid_blocks (fst (fold blockEvents ks acc))) \<and>
         unrouted bs (edge (fst (fold blockEvents ks acc)))"
  using assms
proof (induction ks arbitrary: acc)
  case Nil
  then show ?case by simp
next
  case (Cons k ks)
  have e: "has_keys S (grid_blocks (fst (fold (edgeEvent k b r) is a))) \<and>
           unrouted bs (edge (fst (fold (edgeEvent k b r) is a)))"
    if "has_keys S (grid_blocks (fst a))" "unrouted bs (edge (fst a))" for b r "is" a
    using that by (induction "is" arbitrary: a) (auto simp: edgeEvent_def Let_def split: prod.splits)
  have "has_keys S (grid_blocks (fst (blockEvents k acc))) \<and> unrouted bs (edge (fst (blockEvents k acc)))"
    using Cons.prems by (cases acc) (simp add: blockEvents_def Let_def e)
  then show ?case using Cons.IH by simp
qed

lemma unrouted_setMainColumn: "unrouted bs (edge st) \<Longrightarrow> unrouted bs (edge (setMainColumn k i c st))"
proof -
  assume a: "unrouted bs (edge st)"
  let ?es = "umap_at [] (edge st) k"
  have eq: "umap_at [] (edge (setMainColumn k i c st)) = (umap_at [] (edge st))(k := ?es[i := (?es ! i)\<lparr>mainColumn := c\<rparr>])"
    by (simp add: setMainColumn_def Let_def umap_at_put)
  have "points e = []" if "e \<in> set (?es[i := (?es ! i)\<lparr>mainColumn := c\<rparr>])" for e
  proof (cases "i < length ?es")
    case True
    then have m: "?es ! i \<in> set ?es" by simp
    from that have "e = (?es ! i)\<lparr>mainColumn := c\<rparr> \<or> e \<in> set ?es"
      using set_update_subset_insert [of ?es i "(?es ! i)\<lparr>mainColumn := c\<rparr>"] by auto
    moreover have "\<And>x. x \<in> set ?es \<Longrightarrow> points x = []" using a by (simp add: unrouted_def)
    ultimately show ?thesis using m by auto
  next
    case False
    with that a show ?thesis by (simp add: unrouted_def list_update_beyond)
  qed
  then show ?thesis using a unfolding unrouted_def eq by auto
qed

lemma grid_setMainColumn [simp]: "grid_blocks (setMainColumn k i c st) = grid_blocks st"
  by (simp add: setMainColumn_def Let_def)

lemma processEvent_result:
  assumes "processEvent ev (s, bc) = Inr acc'"
  shows "fst acc' = s\<lparr>grid_blocks := umap_touch default_GridBlock (ev_blockId ev) (grid_blocks s)\<rparr> \<or>
         (\<exists>c t. fst acc' = setMainColumn (ev_blockId ev) (ev_edgeId ev) c
            (s\<lparr>edge := umap_touch [] (ev_blockId ev) (edge s),
               grid_blocks := umap_touch default_GridBlock t
                                  (umap_touch default_GridBlock (ev_blockId ev) (grid_blocks s))\<rparr>))"
proof (cases "ev_type ev = Block")
  case True
  then show ?thesis using assms by (auto simp: processEvent_def Let_def)
next
  case False
  let ?s1 = "s\<lparr>grid_blocks := umap_touch default_GridBlock (ev_blockId ev) (grid_blocks s)\<rparr>"
  let ?s2 = "?s1\<lparr>edge := umap_touch [] (ev_blockId ev) (edge ?s1)\<rparr>"
  let ?e = "umap_at [] (edge ?s2) (ev_blockId ev) ! ev_edgeId ev"
  let ?s3 = "?s2\<lparr>grid_blocks := umap_touch default_GridBlock (dest ?e) (grid_blocks ?s2)\<rparr>"
  have "\<exists>c. acc' = (setMainColumn (ev_blockId ev) (ev_edgeId ev) c ?s3, bc)"
    using assms False unfolding processEvent_def Let_def
    by (simp split: if_split_asm) blast+
  then obtain c where "fst acc' = setMainColumn (ev_blockId ev) (ev_edgeId ev) c ?s3" by auto
  then show ?thesis
    by (intro disjI2 exI [of _ c] exI [of _ "dest ?e"]) simp
qed

lemma processEvent_frame:
  assumes "processEvent ev acc = Inr acc'"
    "has_keys S (grid_blocks (fst acc))" "unrouted bs (edge (fst acc))"
  shows "has_keys S (grid_blocks (fst acc')) \<and> unrouted bs (edge (fst acc'))"
proof -
  obtain s bc where acc: "acc = (s, bc)" by (cases acc)
  from processEvent_result [OF assms(1) [unfolded acc]] assms(2,3)
  show ?thesis
    unfolding acc by (auto intro!: unrouted_setMainColumn)
qed

lemma processEvents_frame:
  assumes "foldE processEvent evs acc = Inr acc'"
    "has_keys S (grid_blocks (fst acc))" "unrouted bs (edge (fst acc))"
  shows "has_keys S (grid_blocks (fst acc')) \<and> unrouted bs (edge (fst acc'))"
  using assms
proof (induction evs arbitrary: acc)
  case Nil
  then show ?case by simp
next
  case (Cons ev evs)
  from Cons.prems(1) obtain a1 where a: "processEvent ev acc = Inr a1"
    and b: "foldE processEvent evs a1 = Inr acc'"
    by (auto split: sum.splits)
  from processEvent_frame [OF a Cons.prems(2,3)] Cons.IH [OF b] show ?case by simp
qed

lemma calculateEdgeMainColumn_frame:
  assumes "calculateEdgeMainColumn hord eord st = Inr st'"
    "has_keys S (grid_blocks st)" "unrouted bs (edge st)"
  shows "has_keys S (grid_blocks st')" and "unrouted bs (edge st')"
proof -
  obtain s1 evs where f: "fold blockEvents (hord (umap_keys (grid_blocks st))) (st, []) = (s1, evs)"
    by (cases "fold blockEvents (hord (umap_keys (grid_blocks st))) (st, [])")
  have 1: "has_keys S (grid_blocks s1) \<and> unrouted bs (edge s1)"
    using blockEvents_frame [of S "(st, [])" bs "hord (umap_keys (grid_blocks st))"] assms(2,3) f by simp
  obtain bc where p: "foldE processEvent (std_sort eord event_less evs) (s1, replicate (columns s1 + 1) (- 1))
      = Inr (st', bc)"
    using assms(1) f by (auto simp: calculateEdgeMainColumn_def split: sum.splits)
  from processEvents_frame [OF p, of S bs] 1
  show "has_keys S (grid_blocks st')" and "unrouted bs (edge st')" by simp_all
qed

text \<open>
  C4, amended: on every successful run, rough routing gives every edge at least 2 and at
  most 6 grid points (at most five segments). The first point is the exit anchor, in the
  row below the source block and in the edge column \<open>col + 1\<close> of the source block; the
  last point is the entry anchor, in the row of the target block and in the edge column
  \<open>col + 1\<close> of the target block; at most four points lie between the anchors.
\<close>

theorem rough_routing_points:
  assumes "conforming impl" and "roughLayout L impl bs entry = Inr st"
    and "i < length (umap_at [] (edge st) k)"
    and "e = umap_at [] (edge st) k ! i"
    and "src = umap_at default_GridBlock (grid_blocks st) k"
    and "tgt = umap_at default_GridBlock (grid_blocks st) (dest e)"
  shows "2 \<le> length (points e) \<and> length (points e) \<le> 6 \<and>
         pt_row (hd (points e)) = row src + 1 \<and> pt_col (hd (points e)) = col src + 1 \<and>
         pt_row (last (points e)) = row tgt \<and> pt_col (last (points e)) = col tgt + 1"
proof -
  let ?h = "hash_order impl"
  have en: "enumerates ?h" using assms(1) by (rule conforming_enumerates)
  obtain s0 s1 where g: "gridLayout L ?h bs entry = Inr s0"
    and c: "calculateEdgeMainColumn ?h (event_order impl) s0 = Inr s1"
    and r: "roughRouting L ?h s1 = Inr st"
    using assms(2) by (auto simp: roughLayout_def split: sum.splits)
  note f0 = gridLayout_frame [OF g en]
  note f1 = calculateEdgeMainColumn_frame [OF c f0]
  have d: "distinct (umap_keys (grid_blocks s1))" using f1(1) by (simp add: has_keys_def)
  have u: "\<And>j e. e \<in> set (edge_at s1 j) \<Longrightarrow> points e = []"
    using f1(2) by (simp add: unrouted_def edge_at_def)
  have len: "length (edge_at st k) = length (edge_at s1 k)"
    using roughRouting_length [OF r en d u] by simp
  then have "edge_at s1 k \<noteq> []" using assms(3) by (auto simp: edge_at_def)
  then have "k \<in> set (umap_keys bs)" using f1(2) by (simp add: unrouted_def edge_at_def)
  then have k: "k \<in> set (umap_keys (grid_blocks s1))" using f1(1) by (auto simp: has_keys_def)
  have "i < length (edge_at st k)" using assms(3) by (simp add: edge_at_def)
  from roughRouting_anchored [OF r en d u k this]
  show ?thesis
    by (simp add: anchored_def edge_at_def grid_at_def assms(4,5,6))
qed

text \<open>The two-block loop: the run succeeds, and block 2 has an edge.\<close>

lemma two_block_loop_succeeds:
  "\<not> isl (roughLayout (new_GraphGridLayout Medium config10 False) in_order
        [(1, block_of 100 50 [2]), (2, block_of 100 50 [1])] 1)"
  by code_simp

lemma two_block_loop_edge:
  "0 < length (umap_at [] (edge (projr (roughLayout (new_GraphGridLayout Medium config10 False) in_order
        [(1, block_of 100 50 [2]), (2, block_of 100 50 [1])] 1))) 2)"
  by code_simp

theorem rough_routing_points_witness:
  "conforming in_order \<and>
   roughLayout (new_GraphGridLayout Medium config10 False) in_order
        [(1, block_of 100 50 [2]), (2, block_of 100 50 [1])] 1
     = Inr (projr (roughLayout (new_GraphGridLayout Medium config10 False) in_order
        [(1, block_of 100 50 [2]), (2, block_of 100 50 [1])] 1)) \<and>
   0 < length (umap_at [] (edge (projr (roughLayout (new_GraphGridLayout Medium config10 False) in_order
        [(1, block_of 100 50 [2]), (2, block_of 100 50 [1])] 1))) 2) \<and>
   (let st = projr (roughLayout (new_GraphGridLayout Medium config10 False) in_order
        [(1, block_of 100 50 [2]), (2, block_of 100 50 [1])] 1);
        e = umap_at [] (edge st) 2 ! 0;
        src = umap_at default_GridBlock (grid_blocks st) 2;
        tgt = umap_at default_GridBlock (grid_blocks st) (dest e)
    in 2 \<le> length (points e) \<and> length (points e) \<le> 6 \<and>
       pt_row (hd (points e)) = row src + 1 \<and> pt_col (hd (points e)) = col src + 1 \<and>
       pt_row (last (points e)) = row tgt \<and> pt_col (last (points e)) = col tgt + 1)"
  using rough_routing_points [OF conforming_in_order _ two_block_loop_edge refl refl refl]
    two_block_loop_succeeds two_block_loop_edge conforming_in_order
  by (simp add: Let_def)

subsection \<open>Edge counts\<close>

text \<open>
  C5 at a failing input: block 1 has width 12 and two outgoing edges (to the blocks 2 and
  3), the edge horizontal spacing is 10. The claim gives \<open>outputCount = 2\<close> and the spacing
  override \<open>max (12 / 2) 1 = 6\<close> at the first point of both edges; the code computes
  \<open>outputCount = 1\<close> and the override 0.
\<close>

theorem output_count_failing_input:
  "map_sum id (\<lambda>st. (outputCount (umap_at default_GridBlock (grid_blocks st) 1),
                      length (umap_at [] (edge st) 1),
                      map (\<lambda>e. pt_spacingOverride (hd (points e))) (umap_at [] (edge st) 1)))
     (roughLayout (new_GraphGridLayout Medium config10 False) in_order
        [(1, block_of 12 50 [2, 3]), (2, block_of 100 50 []), (3, block_of 100 50 [])] 1)
   = Inr (1, 2, [0, 0])"
  by code_simp

subsection \<open>Edges to unknown targets\<close>





subsection \<open>The topological order\<close>

text \<open>
  C10: when every edge goes to a block of the map, the list \<open>blockOrder\<close> that \<open>topoSort\<close>
  returns has no repetitions and consists of the ids of all blocks, reachable from the
  entry or not, together with the entry (which \<open>topoSort\<close> inserts into the map when it is
  not a block): every block id is in the list exactly once.
\<close>

theorem blockOrder_complete:
  assumes "enumerates hord"
    and "all_targets (blocks state) \<subseteq> set (umap_keys (blocks state))"
  shows "distinct (snd (topoSort hord state entry)) \<and>
         set (snd (topoSort hord state entry)) = insert entry (set (umap_keys (blocks state)))"
proof -
  let ?K = "insert entry (set (umap_keys (blocks state)))"
  have "insert entry (set (umap_keys (blocks state)) \<union> all_targets (blocks state)) \<subseteq> ?K"
    using assms(2) by auto
  note r = topoSort_dfs_result [OF assms(1) this]
  have "distinct (blockOrder (topoSort_dfs hord state entry))"
    using r(1) by (simp add: dfs_marks_def)
  moreover have "set (blockOrder (topoSort_dfs hord state entry)) = ?K"
    using r(4,5) by blast
  ultimately show ?thesis by (simp add: topoSort_def Let_def)
qed

text \<open>Three blocks; block 3 is not reachable from the entry 1.\<close>

theorem blockOrder_complete_witness:
  "enumerates (\<lambda>ks. ks) \<and>
   all_targets (blocks (emptyLayoutState
       [(1, block_of 100 50 [2]), (2, block_of 100 50 []), (3, block_of 100 50 [1])]))
     \<subseteq> set (umap_keys (blocks (emptyLayoutState
       [(1, block_of 100 50 [2]), (2, block_of 100 50 []), (3, block_of 100 50 [1])]))) \<and>
   distinct (snd (topoSort (\<lambda>ks. ks) (emptyLayoutState
       [(1, block_of 100 50 [2]), (2, block_of 100 50 []), (3, block_of 100 50 [1])]) 1)) \<and>
   set (snd (topoSort (\<lambda>ks. ks) (emptyLayoutState
       [(1, block_of 100 50 [2]), (2, block_of 100 50 []), (3, block_of 100 50 [1])]) 1))
     = insert 1 (set (umap_keys (blocks (emptyLayoutState
       [(1, block_of 100 50 [2]), (2, block_of 100 50 []), (3, block_of 100 50 [1])]))))"
  using blockOrder_complete [OF enumerates_id, of "emptyLayoutState
       [(1, block_of 100 50 [2]), (2, block_of 100 50 []), (3, block_of 100 50 [1])]" 1]
  by (simp add: enumerates_id all_targets_def emptyLayoutState_def umap_keys_def block_of_def)

subsection \<open>Rows\<close>

text \<open>
  The state and the order after \<open>topoSort\<close>, and the state after the call of \<open>assignRows\<close>
  with which \<open>computeAllBlockPlacement\<close> begins.
\<close>

definition sortedLayout :: "(ut64 list \<Rightarrow> ut64 list) \<Rightarrow> (ut64 \<times> GraphBlock) list \<Rightarrow> ut64 \<Rightarrow> LayoutState \<times> ut64 list" where
  "sortedLayout hord bs entry = topoSort hord (initGridBlocks hord (emptyLayoutState bs)) entry"

definition rowedLayout :: "(ut64 list \<Rightarrow> ut64 list) \<Rightarrow> (ut64 \<times> GraphBlock) list \<Rightarrow> ut64 \<Rightarrow> LayoutState" where
  "rowedLayout hord bs entry =
     (case sortedLayout hord bs entry of (layoutState, order) \<Rightarrow> assignRows layoutState order)"

lemma gb_Nil: "gb [] = (\<lambda>u. default_GridBlock)"
  by (simp add: gb_def umap_at_def fun_eq_iff)

lemma gb_put_all:
  "gb (fold (\<lambda>k g. umap_put k (v k) g) ks g) = (\<lambda>u. if u \<in> set ks then v u else gb g u)"
  by (induction ks arbitrary: g) (auto simp: fun_eq_iff)

lemma gb_initGridBlocks:
  "gb (grid_blocks (initGridBlocks hord (emptyLayoutState bs))) =
     (\<lambda>u. if u \<in> set (hord (umap_keys bs)) then default_GridBlock\<lparr>block_id := u\<rparr>
           else default_GridBlock)"
  by (simp add: initGridBlocks_def emptyLayoutState_def gb_put_all gb_Nil cong: if_cong)

lemma sortedLayout_dag:
  shows "distinct (snd (sortedLayout hord bs entry))"
    and "targets_later (gb (grid_blocks (fst (sortedLayout hord bs entry))))
           (rev (snd (sortedLayout hord bs entry)))"
    and "\<And>v. v \<notin> set (snd (sortedLayout hord bs entry)) \<Longrightarrow>
           dag_edge (gb (grid_blocks (fst (sortedLayout hord bs entry))) v) = []"
proof -
  have 0: "\<And>v. dag_edge (gb (grid_blocks (initGridBlocks hord (emptyLayoutState bs))) v) = []"
    by (simp add: gb_initGridBlocks default_GridBlock_def)
  note t = topoSort_dag [where state = "initGridBlocks hord (emptyLayoutState bs)" and hord = hord
      and entry = entry, OF 0]
  show "distinct (snd (sortedLayout hord bs entry))"
    and "targets_later (gb (grid_blocks (fst (sortedLayout hord bs entry))))
           (rev (snd (sortedLayout hord bs entry)))"
    and "\<And>v. v \<notin> set (snd (sortedLayout hord bs entry)) \<Longrightarrow>
           dag_edge (gb (grid_blocks (fst (sortedLayout hord bs entry))) v) = []"
    using t unfolding sortedLayout_def by blast+
qed

text \<open>
  C2: after \<open>assignRows\<close>, the row of the target of every DAG edge that the DFS has kept
  is at least the row of its source plus one.
\<close>

theorem dag_edges_descend:
  assumes "b \<in> set (dag_edge (gb (grid_blocks (rowedLayout hord bs entry)) a))"
  shows "row (gb (grid_blocks (rowedLayout hord bs entry)) a) + 1
         \<le> row (gb (grid_blocks (rowedLayout hord bs entry)) b)"
proof -
  obtain st order where so: "sortedLayout hord bs entry = (st, order)"
    by (cases "sortedLayout hord bs entry")
  note d = sortedLayout_dag [where hord = hord and bs = bs and entry = entry, unfolded so, simplified]
  let ?g = "grid_blocks st"
  let ?g' = "fold assignRowsBlock (rev order) ?g"
  have g': "grid_blocks (rowedLayout hord bs entry) = ?g'"
    by (simp add: rowedLayout_def so assignRows_def)
  have dr: "distinct (rev order)" using d(1) by simp
  note f = assignRows_fold [OF d(2) dr]
  have ba: "b \<in> set (dag_edge (gb ?g a))" using assms f(1) by (simp add: g')
  have "a \<in> set order"
  proof (rule ccontr)
    assume "a \<notin> set order"
    with d(3) [of a] ba show False by simp
  qed
  then show ?thesis using f(4) [of a b] ba by (simp add: g')
qed

lemma three_blocks_dag:
  "dag_edge (gb (grid_blocks (rowedLayout (\<lambda>ks. ks)
      [(1, block_of 100 50 [2, 3]), (2, block_of 100 50 [3]), (3, block_of 100 50 [1])] 1)) 1) = [2, 3]"
  by code_simp

theorem dag_edges_descend_witness:
  "3 \<in> set (dag_edge (gb (grid_blocks (rowedLayout (\<lambda>ks. ks)
      [(1, block_of 100 50 [2, 3]), (2, block_of 100 50 [3]), (3, block_of 100 50 [1])] 1)) 1)) \<and>
   row (gb (grid_blocks (rowedLayout (\<lambda>ks. ks)
      [(1, block_of 100 50 [2, 3]), (2, block_of 100 50 [3]), (3, block_of 100 50 [1])] 1)) 1) + 1
     \<le> row (gb (grid_blocks (rowedLayout (\<lambda>ks. ks)
      [(1, block_of 100 50 [2, 3]), (2, block_of 100 50 [3]), (3, block_of 100 50 [1])] 1)) 3)"
  using dag_edges_descend [of 3 "\<lambda>ks. ks"
      "[(1, block_of 100 50 [2, 3]), (2, block_of 100 50 [3]), (3, block_of 100 50 [1])]" 1 1]
    three_blocks_dag
  by simp

end
